theory Spec2Isabelle
  imports Main
begin

section \<open>Runtime lifecycle of Runtime.cpp\<close>

text \<open>
  A shallow embedding of \<^verbatim>\<open>runtime/src/main/cpp/Runtime.cpp\<close>: the initializer
  registry (a singly linked list of \<^verbatim>\<open>InitNode\<close>s), the global and the per-thread
  status, the counter of alive runtimes and the public lifecycle entry points.

  Conventions of the model:
  \<^item> A pointer is an optional address; \<open>None\<close> is \<^verbatim>\<open>nullptr\<close>.
  \<^item> \<^verbatim>\<open>InitNode\<close>s and \<^verbatim>\<open>RuntimeState\<close>s live in two explicit stores. Reading or
    writing through a null pointer or through a pointer to no live object is undefined
    behaviour in C++; the model reports it as the outcome \<open>Faults\<close>. A pointer to a
    destructed \<^verbatim>\<open>RuntimeState\<close> whose block the allocator has handed out again reaches
    the object that is in the block now.
  \<^item> Thread-local variables are functions of the thread identifier; the calling thread
    is an explicit argument of every operation that touches one.
  \<^item> Every call that leaves this file (memory subsystem, workers, console, cleaners,
    registered initializers) is recorded, with its arguments, in the field \<open>trace\<close>.
    These callees are opaque: the model assumes that they return and that they do not
    change the variables of this file.
  \<^item> In the transition system of the process an operation is executed atomically by
    its thread: executions are interleavings of whole calls. The initialization is
    modelled a second time statement by statement, for threads that execute it at the
    same time.
\<close>

subsection \<open>Data\<close>

type_synonym addr = nat
type_synonym ptr = "addr option"
type_synonym tid = nat

text \<open>\<^verbatim>\<open>typedef void (*Initializer)(int initialize, MemoryState* memory)\<close>: a callback is
  identified by a number.\<close>

type_synonym Initializer = nat

record InitNode =
  init :: Initializer
  "next" :: ptr

datatype RuntimeStatus = kUninitialized | kRunning | kDestroying

record RuntimeState =
  memoryState :: ptr
  worker :: ptr
  status :: RuntimeStatus

datatype GlobalRuntimeStatus = Global_kUninitialized | Global_kRunning | Global_kDestroyed

definition INIT_GLOBALS :: int where "INIT_GLOBALS = 0"
definition INIT_THREAD_LOCAL_GLOBALS :: int where "INIT_THREAD_LOCAL_GLOBALS = 1"
definition DEINIT_THREAD_LOCAL_GLOBALS :: int where "DEINIT_THREAD_LOCAL_GLOBALS = 2"
definition DEINIT_GLOBALS :: int where "DEINIT_GLOBALS = 3"

text \<open>The calls that leave the file, in the order in which they are made. \<open>RunPhase\<close>
  records an entry into \<^verbatim>\<open>InitOrDeinitGlobalVariables\<close> (a history entry: a phase over
  an empty registry would otherwise leave no mark); \<open>Invoke\<close> is one
  \<^verbatim>\<open>currentNode->init(initialize, memory)\<close>. The argument of
  \<open>WorkerDestroyThreadDataIfNeeded\<close> is the worker whose identifier \<^verbatim>\<open>GetWorkerId\<close> has
  returned.\<close>

datatype event =
    SetKonanTerminateHandler
  | InitMemory bool
  | WorkerInit bool
  | ConsoleInit
  | ObjCExport_initialize
  | RunPhase int ptr
  | Invoke Initializer int ptr
  | RestoreMemory ptr
  | GetWorkerId ptr
  | WorkerDeinit ptr
  | DeinitMemory ptr bool
  | WorkerDestroyThreadDataIfNeeded ptr
  | OnThreadExit ptr
  | PerformFullGC
  | ShutdownCleaners bool
  | WaitNativeWorkersTermination
  | ConsoleErrorf string "int list"

text \<open>Build-time constants that the file reads but does not define.\<close>

record config =
  enableAsserts :: bool
  KONAN_OBJC_INTEROP :: bool
  KonanNeedDebugInfo :: bool

record state =
  nodes :: "addr \<rightharpoonup> InitNode"
  initHeadNode :: ptr
  initTailNode :: ptr
  g_checkLeaks :: bool
  g_checkLeakedCleaners :: bool
  runtimeState :: "tid \<Rightarrow> ptr"
  aliveRuntimesCount :: int
  globalRuntimeStatus :: GlobalRuntimeStatus
  heap :: "addr \<rightharpoonup> RuntimeState"
  exitCallbacks :: "tid \<Rightarrow> ptr list"
  trace :: "event list"

text \<open>How a call ends. \<open>Aborts\<close> is an explicit \<^verbatim>\<open>konan::abort()\<close> of this file, with
  the state at that point; \<open>AssertFails\<close> is a failed \<^verbatim>\<open>RuntimeAssert\<close> or
  \<^verbatim>\<open>RuntimeCheck\<close>, which also ends the process after its diagnostic; \<open>Faults\<close> is a
  dereference of a null pointer or of a pointer to no live object; \<open>Hangs\<close> is a
  traversal of the registry that never ends.\<close>

datatype 'a outcome =
    Returns 'a state
  | Aborts state
  | AssertFails string state
  | Faults state
  | Hangs

fun bind :: "'a outcome \<Rightarrow> ('a \<Rightarrow> state \<Rightarrow> 'b outcome) \<Rightarrow> 'b outcome" where
  "bind (Returns v s) k = k v s"
| "bind (Aborts s) k = Aborts s"
| "bind (AssertFails m s) k = AssertFails m s"
| "bind (Faults s) k = Faults s"
| "bind Hangs k = Hangs"

definition log :: "event \<Rightarrow> state \<Rightarrow> state" where
  "log e s = s\<lparr>trace := trace s @ [e]\<rparr>"

subsection \<open>The initializer registry\<close>

text \<open>The loop of \<^verbatim>\<open>InitOrDeinitGlobalVariables\<close>. It follows \<^verbatim>\<open>next\<close> pointers until
  it meets \<^verbatim>\<open>nullptr\<close>, so it need not terminate: \<open>None\<close> is the run that never ends,
  \<open>Some (Inl tr)\<close> the run that dereferences a pointer to no node, \<open>Some (Inr tr)\<close> the
  run that returns; \<open>tr\<close> is the trace so far.\<close>

partial_function (option) traverse ::
  "(addr \<rightharpoonup> InitNode) \<Rightarrow> int \<Rightarrow> ptr \<Rightarrow> ptr \<Rightarrow> event list \<Rightarrow> (event list + event list) option"
where
  "traverse ns initialize memory currentNode tr =
     (case currentNode of
        None \<Rightarrow> Some (Inr tr)
      | Some a \<Rightarrow>
          (case ns a of
             None \<Rightarrow> Some (Inl tr)
           | Some n \<Rightarrow> traverse ns initialize memory (next n) (tr @ [Invoke (init n) initialize memory])))"

declare traverse.simps [code]

definition InitOrDeinitGlobalVariables :: "int \<Rightarrow> ptr \<Rightarrow> state \<Rightarrow> unit outcome" where
  "InitOrDeinitGlobalVariables initialize memory s =
     (case traverse (nodes s) initialize memory (initHeadNode s)
             (trace s @ [RunPhase initialize memory]) of
        None \<Rightarrow> Hangs
      | Some (Inl tr) \<Rightarrow> Faults (s\<lparr>trace := tr\<rparr>)
      | Some (Inr tr) \<Rightarrow> Returns () (s\<lparr>trace := tr\<rparr>))"

definition AppendToInitializersTail :: "ptr \<Rightarrow> state \<Rightarrow> unit outcome" where
  "AppendToInitializersTail nxt s =
     (if initHeadNode s = None then
        Returns () (s\<lparr>initHeadNode := nxt, initTailNode := nxt\<rparr>)
      else
        (case initTailNode s of
           None \<Rightarrow> Faults s
         | Some t \<Rightarrow>
             (case nodes s t of
                None \<Rightarrow> Faults s
              | Some n \<Rightarrow>
                  Returns () (s\<lparr>nodes := (nodes s)(t \<mapsto> n\<lparr>next := nxt\<rparr>), initTailNode := nxt\<rparr>))))"

subsection \<open>Collaborators that are not part of the file\<close>

text \<open>Modelled from the spec: \<^verbatim>\<open>RuntimeAssert\<close> and \<^verbatim>\<open>RuntimeCheck\<close> (\<^verbatim>\<open>KAssert.h\<close> is
  not among the sources). A violated condition ends the call with the diagnostic; the
  state is the one in which the condition was evaluated. \<^verbatim>\<open>RuntimeAssert\<close> is an
  internal check that a build may compile out (\<open>enableAsserts\<close>); \<^verbatim>\<open>RuntimeCheck\<close>
  is always present.\<close>

definition RuntimeAssert :: "config \<Rightarrow> bool \<Rightarrow> string \<Rightarrow> state \<Rightarrow> 'a outcome \<Rightarrow> 'a outcome" where
  "RuntimeAssert c cond msg s k = (if enableAsserts c \<and> \<not> cond then AssertFails msg s else k)"

definition RuntimeCheck :: "bool \<Rightarrow> string \<Rightarrow> state \<Rightarrow> 'a outcome \<Rightarrow> 'a outcome" where
  "RuntimeCheck cond msg s k = (if \<not> cond then AssertFails msg s else k)"

text \<open>What the environment hands to one initialization: whether the construction of the
  \<^verbatim>\<open>RuntimeState\<close> succeeds and at which address the allocator places the new object,
  and the pointers that \<^verbatim>\<open>InitMemory\<close> and \<^verbatim>\<open>WorkerInit\<close> return.\<close>

record env =
  allocOk :: bool
  newInstance :: addr
  newMemory :: ptr
  newWorker :: ptr

text \<open>Modelled from the spec: \<^verbatim>\<open>konanConstructInstance<RuntimeState>()\<close> and
  \<^verbatim>\<open>konanDestructInstance\<close> (\<^verbatim>\<open>Alloc.h\<close> is not among the sources). Construction
  either fails with a null result or yields a new object with the member initializer
  \<^verbatim>\<open>status = RuntimeStatus::kUninitialized\<close>. Whether it fails and which block the
  allocator hands out are inputs of the call: nothing in the sources keeps the allocator
  from handing out again the block of a destructed instance, to which pointers may still
  exist. That the block is not in use at the time of the call is the condition
  \<open>allocates\<close> of the transition system below.\<close>

definition konanConstructInstance :: "env \<Rightarrow> state \<Rightarrow> ptr \<times> state" where
  "konanConstructInstance e s =
     (if allocOk e then
        (Some (newInstance e),
         s\<lparr>heap := (heap s)(newInstance e \<mapsto>
              \<lparr>memoryState = None, worker = None, status = kUninitialized\<rparr>)\<rparr>)
      else (None, s))"

definition konanDestructInstance :: "addr \<Rightarrow> state \<Rightarrow> state" where
  "konanDestructInstance a s = s\<lparr>heap := (heap s)(a := None)\<rparr>"

text \<open>Access to the fields of a \<^verbatim>\<open>RuntimeState\<close> through a pointer.\<close>

definition deref :: "ptr \<Rightarrow> state \<Rightarrow> (addr \<Rightarrow> RuntimeState \<Rightarrow> 'a outcome) \<Rightarrow> 'a outcome" where
  "deref p s k =
     (case p of
        None \<Rightarrow> Faults s
      | Some a \<Rightarrow> (case heap s a of None \<Rightarrow> Faults s | Some rs \<Rightarrow> k a rs))"

definition store :: "addr \<Rightarrow> RuntimeState \<Rightarrow> state \<Rightarrow> state" where
  "store a rs s = s\<lparr>heap := (heap s)(a \<mapsto> rs)\<rparr>"

text \<open>Modelled from the spec: \<^verbatim>\<open>konan::onThreadExit\<close> (\<^verbatim>\<open>Porting.cpp\<close> is not among the
  sources) registers a callback that is invoked when the thread exits. The only callback
  this file registers is \<^verbatim>\<open>Kotlin_deinitRuntimeCallback\<close>, so a registration is
  represented by its argument.\<close>

definition onThreadExit :: "tid \<Rightarrow> ptr \<Rightarrow> state \<Rightarrow> state" where
  "onThreadExit t argument s =
     log (OnThreadExit argument)
       (s\<lparr>exitCallbacks := (exitCallbacks s)(t := exitCallbacks s t @ [argument])\<rparr>)"

subsection \<open>The lifecycle\<close>

definition kInvalidRuntime :: ptr where
  "kInvalidRuntime = None"

definition isValidRuntime :: "tid \<Rightarrow> state \<Rightarrow> bool" where
  "isValidRuntime t s \<longleftrightarrow> runtimeState s t \<noteq> kInvalidRuntime"

definition Kotlin_memoryLeakCheckerEnabled :: "state \<Rightarrow> bool" where
  "Kotlin_memoryLeakCheckerEnabled s = g_checkLeaks s"

definition Kotlin_cleanersLeakCheckerEnabled :: "state \<Rightarrow> bool" where
  "Kotlin_cleanersLeakCheckerEnabled s = g_checkLeakedCleaners s"

definition Konan_Platform_setMemoryLeakChecker :: "bool \<Rightarrow> state \<Rightarrow> unit outcome" where
  "Konan_Platform_setMemoryLeakChecker v s = Returns () (s\<lparr>g_checkLeaks := v\<rparr>)"

definition Konan_Platform_setCleanersLeakChecker :: "bool \<Rightarrow> state \<Rightarrow> unit outcome" where
  "Konan_Platform_setCleanersLeakChecker v s = Returns () (s\<lparr>g_checkLeakedCleaners := v\<rparr>)"

text \<open>\<^verbatim>\<open>compareAndSet\<close>, \<^verbatim>\<open>atomicGet\<close>, \<^verbatim>\<open>atomicSet\<close> and \<^verbatim>\<open>atomicAdd\<close> are a test and
  an update of the variable. \<^verbatim>\<open>aliveRuntimesCount\<close> is a C \<^verbatim>\<open>int\<close>; the model counts
  in \<open>int\<close>, which agrees with it while fewer than \<open>2^31\<close> threads hold a runtime.\<close>

definition initRuntime :: "config \<Rightarrow> tid \<Rightarrow> env \<Rightarrow> state \<Rightarrow> ptr outcome" where
  "initRuntime c t e s0 =
     (let s1 = log SetKonanTerminateHandler s0;
          (result, s2) = konanConstructInstance e s1
      in if result = None then Returns kInvalidRuntime s2
         else
           RuntimeCheck (\<not> isValidRuntime t s2) ''No active runtimes allowed'' s2
           (let s3 = s2\<lparr>runtimeState := (runtimeState s2)(t := result)\<rparr>;
                firstRuntime = (globalRuntimeStatus s3 = Global_kUninitialized);
                s4 = (if firstRuntime then s3\<lparr>globalRuntimeStatus := Global_kRunning\<rparr> else s3)
            in RuntimeCheck (globalRuntimeStatus s4 = Global_kRunning) ''Must be running'' s4
               (let s5 = s4\<lparr>aliveRuntimesCount := aliveRuntimesCount s4 + 1\<rparr>
                in deref result (log (InitMemory firstRuntime) s5) (\<lambda>a rs.
                   let s6 = store a (rs\<lparr>memoryState := newMemory e\<rparr>) (log (InitMemory firstRuntime) s5)
                   in deref result (log (WorkerInit True) s6) (\<lambda>a rs.
                   let s7 = store a (rs\<lparr>worker := newWorker e\<rparr>) (log (WorkerInit True) s6)
                   in bind
                        (if firstRuntime then
                           (let s8 = log ConsoleInit s7;
                                s9 = (if KONAN_OBJC_INTEROP c then log ObjCExport_initialize s8 else s8)
                            in deref result s9 (\<lambda>a rs.
                                 InitOrDeinitGlobalVariables INIT_GLOBALS (memoryState rs) s9))
                         else Returns () s7)
                        (\<lambda>_ s10.
                           deref result s10 (\<lambda>a rs.
                           bind (InitOrDeinitGlobalVariables INIT_THREAD_LOCAL_GLOBALS (memoryState rs) s10)
                             (\<lambda>_ s11.
                                deref result s11 (\<lambda>a rs.
                                RuntimeAssert c (status rs = kUninitialized)
                                  ''Runtime must still be in the uninitialized state'' s11
                                  (Returns result (store a (rs\<lparr>status := kRunning\<rparr>) s11)))))))))))"

definition deinitRuntime :: "config \<Rightarrow> ptr \<Rightarrow> bool \<Rightarrow> state \<Rightarrow> unit outcome" where
  "deinitRuntime c st destroyRuntime s0 =
     deref st s0 (\<lambda>a rs.
     RuntimeAssert c (status rs = kRunning) ''Runtime must be in the running state'' s0
     (let s1 = store a (rs\<lparr>status := kDestroying\<rparr>) s0
      in deref st s1 (\<lambda>a rs.
      let s2 = log (RestoreMemory (memoryState rs)) s1;
          s3 = s2\<lparr>aliveRuntimesCount := aliveRuntimesCount s2 - 1\<rparr>
      in bind (InitOrDeinitGlobalVariables DEINIT_THREAD_LOCAL_GLOBALS (memoryState rs) s3)
           (\<lambda>_ s4.
              deref st s4 (\<lambda>a rs.
              bind (if destroyRuntime
                    then InitOrDeinitGlobalVariables DEINIT_GLOBALS (memoryState rs) s4
                    else Returns () s4)
                (\<lambda>_ s5.
                   deref st s5 (\<lambda>a rs.
                   let workerId = worker rs;
                       s6 = log (GetWorkerId (worker rs)) s5;
                       s7 = log (WorkerDeinit (worker rs)) s6;
                       s8 = log (DeinitMemory (memoryState rs) destroyRuntime) s7;
                       s9 = konanDestructInstance a s8
                   in Returns () (log (WorkerDestroyThreadDataIfNeeded workerId) s9))))))))"

definition Kotlin_deinitRuntimeCallback :: "config \<Rightarrow> ptr \<Rightarrow> state \<Rightarrow> unit outcome" where
  "Kotlin_deinitRuntimeCallback c argument s = deinitRuntime c argument False s"

definition Kotlin_initRuntimeIfNeeded :: "config \<Rightarrow> tid \<Rightarrow> env \<Rightarrow> state \<Rightarrow> unit outcome" where
  "Kotlin_initRuntimeIfNeeded c t e s =
     (if \<not> isValidRuntime t s then
        if globalRuntimeStatus s = Global_kDestroyed then
          Aborts (log (ConsoleErrorf
            ''Kotlin runtime was previously destroyed. Cannot create new runtime.'' []) s)
        else
          bind (initRuntime c t e s)
            (\<lambda>_ s'. Returns () (onThreadExit t (runtimeState s' t) s'))
      else Returns () s)"

definition Kotlin_deinitRuntimeIfNeeded :: "config \<Rightarrow> tid \<Rightarrow> state \<Rightarrow> unit outcome" where
  "Kotlin_deinitRuntimeIfNeeded c t s =
     (if isValidRuntime t s then
        bind (deinitRuntime c (runtimeState s t) False s)
          (\<lambda>_ s'. Returns () (s'\<lparr>runtimeState := (runtimeState s')(t := kInvalidRuntime)\<rparr>))
      else Returns () s)"

definition Kotlin_destroyRuntime :: "config \<Rightarrow> tid \<Rightarrow> state \<Rightarrow> unit outcome" where
  "Kotlin_destroyRuntime c t s =
     RuntimeAssert c (globalRuntimeStatus s = Global_kRunning) ''Kotlin runtime must be running'' s
     (RuntimeAssert c (isValidRuntime t s) ''Current thread must have Kotlin runtime on it.'' s
     (let s1 = (if Kotlin_cleanersLeakCheckerEnabled s
                then log (ShutdownCleaners True) (log PerformFullGC s)
                else log (ShutdownCleaners False) s);
          s2 = (if Kotlin_memoryLeakCheckerEnabled s1
                then log WaitNativeWorkersTermination s1 else s1);
          s3 = s2\<lparr>globalRuntimeStatus := Global_kDestroyed\<rparr>;
          otherRuntimesCount = aliveRuntimesCount s3 - 1
      in RuntimeAssert c (otherRuntimesCount \<ge> 0) ''Cannot be negative.'' s3
         (if otherRuntimesCount > 0 then
            Aborts (log (ConsoleErrorf
              ''Cannot destroy runtime while there're %d alive threads with Kotlin runtime on them.''
              [otherRuntimesCount]) s3)
          else
            bind (deinitRuntime c (runtimeState s3 t) True s3)
              (\<lambda>_ s4. Returns () (s4\<lparr>runtimeState := (runtimeState s4)(t := kInvalidRuntime)\<rparr>)))))"

definition Kotlin_zeroOutTLSGlobals :: "tid \<Rightarrow> state \<Rightarrow> unit outcome" where
  "Kotlin_zeroOutTLSGlobals t s =
     (if runtimeState s t \<noteq> None then
        deref (runtimeState s t) s (\<lambda>a rs.
          if memoryState rs \<noteq> None
          then InitOrDeinitGlobalVariables DEINIT_THREAD_LOCAL_GLOBALS (memoryState rs) s
          else Returns () s)
      else Returns () s)"

text \<open>Modelled from the spec: the end of a thread (the platform side of
  \<^verbatim>\<open>konan::onThreadExit\<close> is not among the sources). The callbacks that the thread
  registered are invoked with their arguments, in the order of registration; then the
  thread and its thread-local variables are gone, so that a later thread with the same
  identifier starts from \<^verbatim>\<open>kInvalidRuntime\<close> and no registration.\<close>

fun runExitCallbacks :: "config \<Rightarrow> ptr list \<Rightarrow> state \<Rightarrow> unit outcome" where
  "runExitCallbacks c [] s = Returns () s"
| "runExitCallbacks c (argument # rest) s =
     bind (Kotlin_deinitRuntimeCallback c argument s) (\<lambda>_ s'. runExitCallbacks c rest s')"

definition threadExit :: "config \<Rightarrow> tid \<Rightarrow> state \<Rightarrow> unit outcome" where
  "threadExit c t s =
     bind (runExitCallbacks c (exitCallbacks s t) s)
       (\<lambda>_ s'. Returns () (s'\<lparr>runtimeState := (runtimeState s')(t := kInvalidRuntime),
                               exitCallbacks := (exitCallbacks s')(t := [])\<rparr>))"

subsection \<open>The process as a transition system\<close>

text \<open>The calls that a thread can make. \<open>ThreadExit\<close> is the end of the thread.\<close>

datatype call =
    Register ptr
  | Init tid env
  | Deinit tid
  | Destroy tid
  | ZeroOutTLS tid
  | ThreadExit tid
  | SetMemoryLeakChecker bool
  | SetCleanersLeakChecker bool

fun exec :: "config \<Rightarrow> call \<Rightarrow> state \<Rightarrow> unit outcome" where
  "exec c (Register p) s = AppendToInitializersTail p s"
| "exec c (Init t e) s = Kotlin_initRuntimeIfNeeded c t e s"
| "exec c (Deinit t) s = Kotlin_deinitRuntimeIfNeeded c t s"
| "exec c (Destroy t) s = Kotlin_destroyRuntime c t s"
| "exec c (ZeroOutTLS t) s = Kotlin_zeroOutTLSGlobals t s"
| "exec c (ThreadExit t) s = threadExit c t s"
| "exec c (SetMemoryLeakChecker v) s = Konan_Platform_setMemoryLeakChecker v s"
| "exec c (SetCleanersLeakChecker v) s = Konan_Platform_setCleanersLeakChecker v s"

text \<open>The state at process start, as the initializers of the file's variables give it.
  The \<^verbatim>\<open>InitNode\<close>s are objects of the modules that register them, so the node store
  is arbitrary.\<close>

definition initial :: "config \<Rightarrow> state \<Rightarrow> bool" where
  "initial c s \<longleftrightarrow>
     initHeadNode s = None \<and> initTailNode s = None \<and>
     g_checkLeaks s = KonanNeedDebugInfo c \<and> g_checkLeakedCleaners s = KonanNeedDebugInfo c \<and>
     (\<forall>t. runtimeState s t = kInvalidRuntime) \<and>
     aliveRuntimesCount s = 0 \<and>
     globalRuntimeStatus s = Global_kUninitialized \<and>
     heap s = Map.empty \<and> (\<forall>t. exitCallbacks s t = []) \<and> trace s = []"

text \<open>What the allocator guarantees to an initialization: the block that it hands out
  is not in use. And what it does not guarantee: \<open>recycles\<close> holds when the block is
  one that some thread has registered as the argument of its exit callback, which is
  possible when that instance has been destructed in the meantime (by
  \<^verbatim>\<open>Kotlin_deinitRuntimeIfNeeded\<close>, which leaves the registration in place).\<close>

fun allocates :: "call \<Rightarrow> state \<Rightarrow> bool" where
  "allocates (Init t e) s \<longleftrightarrow> (allocOk e \<longrightarrow> heap s (newInstance e) = None)"
| "allocates k s \<longleftrightarrow> True"


text \<open>A call that does not return ends the process (or never ends), so only returning
  calls have a successor state. \<open>reachableWithReuse\<close> are the states that the process
  can reach with any allocator; \<open>reachable\<close> are those that it reaches as long as the
  allocator hands out no block that is still the argument of a registered exit
  callback (as an allocator that never hands out a block twice does).\<close>

inductive reachableWithReuse :: "config \<Rightarrow> state \<Rightarrow> bool" for c :: config where
  start: "initial c s \<Longrightarrow> reachableWithReuse c s"
| step: "reachableWithReuse c s \<Longrightarrow> allocates k s \<Longrightarrow> exec c k s = Returns () s' \<Longrightarrow>
         reachableWithReuse c s'"


inductive reaches :: "config \<Rightarrow> state \<Rightarrow> state \<Rightarrow> bool" for c :: config where
  here: "reaches c s s"
| later: "reaches c s s' \<Longrightarrow> exec c k s' = Returns () s'' \<Longrightarrow> reaches c s s''"

subsection \<open>Notions used in the statements\<close>

text \<open>\<open>chain ns p xs\<close>: following \<^verbatim>\<open>next\<close> from \<open>p\<close> visits exactly the nodes at the
  addresses of \<open>xs\<close>, whose callbacks are the second components, and then reaches
  \<^verbatim>\<open>nullptr\<close>. \<open>registry s xs\<close>: the list of the file is such a chain from
  \<^verbatim>\<open>initHeadNode\<close>, and \<^verbatim>\<open>initTailNode\<close> points to its last node.\<close>

fun chain :: "(addr \<rightharpoonup> InitNode) \<Rightarrow> ptr \<Rightarrow> (addr \<times> Initializer) list \<Rightarrow> bool" where
  "chain ns p [] \<longleftrightarrow> p = None"
| "chain ns p (x # xs) \<longleftrightarrow>
     p = Some (fst x) \<and>
     (case ns (fst x) of None \<Rightarrow> False | Some n \<Rightarrow> init n = snd x \<and> chain ns (next n) xs)"

definition registry :: "state \<Rightarrow> (addr \<times> Initializer) list \<Rightarrow> bool" where
  "registry s xs \<longleftrightarrow>
     chain (nodes s) (initHeadNode s) xs \<and> (xs \<noteq> [] \<longrightarrow> initTailNode s = Some (fst (last xs)))"

text \<open>The events of one phase over the registered callbacks \<open>xs\<close>, of a successful
  initialization, of a teardown, and of the first part of \<^verbatim>\<open>Kotlin_destroyRuntime\<close>.\<close>

definition phaseEvents :: "int \<Rightarrow> ptr \<Rightarrow> (addr \<times> Initializer) list \<Rightarrow> event list" where
  "phaseEvents initialize memory xs =
     RunPhase initialize memory # map (\<lambda>x. Invoke (snd x) initialize memory) xs"

definition initEvents :: "config \<Rightarrow> bool \<Rightarrow> ptr \<Rightarrow> (addr \<times> Initializer) list \<Rightarrow> event list" where
  "initEvents c firstRuntime memory xs =
     [SetKonanTerminateHandler, InitMemory firstRuntime, WorkerInit True]
     @ (if firstRuntime then
          ConsoleInit # (if KONAN_OBJC_INTEROP c then [ObjCExport_initialize] else [])
          @ phaseEvents INIT_GLOBALS memory xs
        else [])
     @ phaseEvents INIT_THREAD_LOCAL_GLOBALS memory xs"

definition deinitEvents :: "bool \<Rightarrow> RuntimeState \<Rightarrow> (addr \<times> Initializer) list \<Rightarrow> event list" where
  "deinitEvents destroyRuntime rs xs =
     RestoreMemory (memoryState rs)
     # phaseEvents DEINIT_THREAD_LOCAL_GLOBALS (memoryState rs) xs
     @ (if destroyRuntime then phaseEvents DEINIT_GLOBALS (memoryState rs) xs else [])
     @ [GetWorkerId (worker rs), WorkerDeinit (worker rs),
        DeinitMemory (memoryState rs) destroyRuntime,
        WorkerDestroyThreadDataIfNeeded (worker rs)]"

definition shutdownEvents :: "state \<Rightarrow> event list" where
  "shutdownEvents s =
     (if g_checkLeakedCleaners s then [PerformFullGC, ShutdownCleaners True]
      else [ShutdownCleaners False])
     @ (if g_checkLeaks s then [WaitNativeWorkersTermination] else [])"

text \<open>How often a phase was entered, and how often \<^verbatim>\<open>InitMemory\<close> was called with
  \<^verbatim>\<open>firstRuntime == true\<close>, in a trace.\<close>

fun isRunPhase :: "int \<Rightarrow> event \<Rightarrow> bool" where
  "isRunPhase ph (RunPhase ph' m) \<longleftrightarrow> ph' = ph"
| "isRunPhase ph _ \<longleftrightarrow> False"

definition phaseRuns :: "int \<Rightarrow> event list \<Rightarrow> nat" where
  "phaseRuns ph tr = length (filter (isRunPhase ph) tr)"

definition firstRuntimeCalls :: "event list \<Rightarrow> nat" where
  "firstRuntimeCalls tr = length (filter (\<lambda>e. e = InitMemory True) tr)"

text \<open>The state in which a call ends, if it ends; and \<open>quiet n s r\<close>: a call that
  started in \<open>s\<close> and ended as \<open>r\<close> has only appended events to the trace, among
  them at most \<open>n\<close> entries into the \<^verbatim>\<open>DEINIT_GLOBALS\<close> phase.\<close>

fun outcomeState :: "'a outcome \<Rightarrow> state option" where
  "outcomeState (Returns v s) = Some s"
| "outcomeState (Aborts s) = Some s"
| "outcomeState (AssertFails m s) = Some s"
| "outcomeState (Faults s) = Some s"
| "outcomeState Hangs = None"

definition quietly :: "nat \<Rightarrow> state \<Rightarrow> state \<Rightarrow> bool" where
  "quietly n s s' \<longleftrightarrow>
     (\<exists>evs. trace s' = trace s @ evs \<and> phaseRuns DEINIT_GLOBALS evs \<le> n)"

definition quiet :: "nat \<Rightarrow> state \<Rightarrow> 'a outcome \<Rightarrow> bool" where
  "quiet n s r \<longleftrightarrow> (case outcomeState r of None \<Rightarrow> True | Some s' \<Rightarrow> quietly n s s')"

text \<open>\<open>keepsStatus s r\<close>: a call that started in \<open>s\<close> and ended as \<open>r\<close> has left
  the global status as it was.\<close>

definition keepsStatus :: "state \<Rightarrow> 'a outcome \<Rightarrow> bool" where
  "keepsStatus s r \<longleftrightarrow>
     (case outcomeState r of
        None \<Rightarrow> True
      | Some s' \<Rightarrow> globalRuntimeStatus s' = globalRuntimeStatus s)"

text \<open>The threads that hold a runtime.\<close>

definition alive :: "state \<Rightarrow> tid set" where
  "alive s = {t. isValidRuntime t s}"

text \<open>The two diagnostics of the file (without the final newline).\<close>

definition destroyedMessage :: string where
  "destroyedMessage = ''Kotlin runtime was previously destroyed. Cannot create new runtime.''"

definition aliveThreadsMessage :: string where
  "aliveThreadsMessage =
     ''Cannot destroy runtime while there're %d alive threads with Kotlin runtime on them.''"

text \<open>The state after a successful \<^verbatim>\<open>initRuntime\<close> of thread \<open>t\<close>, after a teardown of
  the instance at \<open>a\<close>, and after the part of \<^verbatim>\<open>Kotlin_destroyRuntime\<close> that precedes
  the count of the other runtimes; \<open>xs\<close> are the registered callbacks.\<close>

definition afterInit :: "config \<Rightarrow> tid \<Rightarrow> env \<Rightarrow> (addr \<times> Initializer) list \<Rightarrow> state \<Rightarrow> state" where
  "afterInit c t e xs s =
     s\<lparr>runtimeState := (runtimeState s)(t \<mapsto> newInstance e),
       aliveRuntimesCount := aliveRuntimesCount s + 1,
       globalRuntimeStatus := Global_kRunning,
       heap := (heap s)(newInstance e \<mapsto>
                 \<lparr>memoryState = newMemory e, worker = newWorker e, status = kRunning\<rparr>),
       trace := trace s @
         initEvents c (globalRuntimeStatus s = Global_kUninitialized) (newMemory e) xs\<rparr>"

definition afterDeinit :: "bool \<Rightarrow> addr \<Rightarrow> RuntimeState \<Rightarrow> (addr \<times> Initializer) list \<Rightarrow> state \<Rightarrow> state" where
  "afterDeinit destroyRuntime a rs xs s =
     s\<lparr>aliveRuntimesCount := aliveRuntimesCount s - 1,
       heap := (heap s)(a := None),
       trace := trace s @ deinitEvents destroyRuntime rs xs\<rparr>"

definition afterShutdown :: "state \<Rightarrow> state" where
  "afterShutdown s =
     s\<lparr>trace := trace s @ shutdownEvents s, globalRuntimeStatus := Global_kDestroyed\<rparr>"


text \<open>The invariant of the states in \<open>reachableWithReuse\<close>: the counter is the number
  of live \<^verbatim>\<open>RuntimeState\<close> instances.\<close>

definition instanceInv :: "state \<Rightarrow> bool" where
  "instanceInv s \<longleftrightarrow>
     finite (dom (heap s)) \<and> aliveRuntimesCount s = int (card (dom (heap s)))"

text \<open>The invariant of the states in \<open>reachableWithReuse\<close> about the destruction: a
  live instance exists only while the global status is running, and the trace holds an
  entry into the \<^verbatim>\<open>DEINIT_GLOBALS\<close> phase exactly when the global status is destroyed.\<close>

definition shutdownInv :: "state \<Rightarrow> bool" where
  "shutdownInv s \<longleftrightarrow>
     (heap s \<noteq> Map.empty \<longrightarrow> globalRuntimeStatus s = Global_kRunning) \<and>
     phaseRuns DEINIT_GLOBALS (trace s) =
       (if globalRuntimeStatus s = Global_kDestroyed then 1 else 0)"

subsection \<open>Initialization by several threads at once\<close>

text \<open>\<^verbatim>\<open>Kotlin_initRuntimeIfNeeded\<close> and the \<^verbatim>\<open>initRuntime\<close> that it calls, statement by
  statement. A label names the statement that a thread executes next, by its line in
  \<^verbatim>\<open>Runtime.cpp\<close>: \<open>L149\<close> is the test of the global status with the diagnostic and
  the abort of lines 150 and 151, \<open>L89\<close> the construction with the test of its result
  in line 90, \<open>L99\<close> the test of \<^verbatim>\<open>firstRuntime\<close> with \<^verbatim>\<open>konan::consoleInit()\<close> in
  line 100, \<open>L102\<close> the call that only a build with \<^verbatim>\<open>KONAN_OBJC_INTEROP\<close> contains,
  and \<open>Done\<close> the return from \<^verbatim>\<open>Kotlin_initRuntimeIfNeeded\<close>. A frame holds the
  label and the two local variables of \<^verbatim>\<open>initRuntime\<close>. One step executes one
  statement on the shared state, and sees the effects of all earlier steps of all
  threads: \<^verbatim>\<open>compareAndSet\<close> (line 93) is a single step, as are each \<^verbatim>\<open>atomicGet\<close>
  and the \<^verbatim>\<open>atomicAdd\<close>; a traversal of the registry is one step, its callbacks
  being opaque. A step of a thread that has returned changes nothing.\<close>

datatype label =
    L148 | L149 | L88 | L89 | L91 | L92 | L93 | L94 | L95 | L96 | L97
  | L99 | L102 | L104 | L106 | L107 | L108 | L155 | Done

record frame =
  pc :: label
  result :: ptr
  firstRuntime :: bool

text \<open>The frame of a thread that is about to call \<^verbatim>\<open>Kotlin_initRuntimeIfNeeded\<close>.\<close>

definition entry :: frame where
  "entry = \<lparr>pc = L148, result = None, firstRuntime = False\<rparr>"

definition initStep :: "config \<Rightarrow> tid \<Rightarrow> env \<Rightarrow> frame \<Rightarrow> state \<Rightarrow> frame outcome" where
  "initStep c t e f s =
     (case pc f of
        L148 \<Rightarrow> Returns (f\<lparr>pc := (if \<not> isValidRuntime t s then L149 else Done)\<rparr>) s
      | L149 \<Rightarrow>
          if globalRuntimeStatus s = Global_kDestroyed then
            Aborts (log (ConsoleErrorf
              ''Kotlin runtime was previously destroyed. Cannot create new runtime.'' []) s)
          else Returns (f\<lparr>pc := L88\<rparr>) s
      | L88 \<Rightarrow> Returns (f\<lparr>pc := L89\<rparr>) (log SetKonanTerminateHandler s)
      | L89 \<Rightarrow>
          (let (r, s') = konanConstructInstance e s
           in Returns (f\<lparr>pc := (if r = None then L155 else L91), result := r\<rparr>) s')
      | L91 \<Rightarrow>
          RuntimeCheck (\<not> isValidRuntime t s) ''No active runtimes allowed'' s
            (Returns (f\<lparr>pc := L92\<rparr>) s)
      | L92 \<Rightarrow> Returns (f\<lparr>pc := L93\<rparr>) (s\<lparr>runtimeState := (runtimeState s)(t := result f)\<rparr>)
      | L93 \<Rightarrow>
          if globalRuntimeStatus s = Global_kUninitialized
          then Returns (f\<lparr>pc := L94, firstRuntime := True\<rparr>)
                 (s\<lparr>globalRuntimeStatus := Global_kRunning\<rparr>)
          else Returns (f\<lparr>pc := L94, firstRuntime := False\<rparr>) s
      | L94 \<Rightarrow>
          RuntimeCheck (globalRuntimeStatus s = Global_kRunning) ''Must be running'' s
            (Returns (f\<lparr>pc := L95\<rparr>) s)
      | L95 \<Rightarrow> Returns (f\<lparr>pc := L96\<rparr>) (s\<lparr>aliveRuntimesCount := aliveRuntimesCount s + 1\<rparr>)
      | L96 \<Rightarrow>
          deref (result f) (log (InitMemory (firstRuntime f)) s) (\<lambda>a rs.
            Returns (f\<lparr>pc := L97\<rparr>)
              (store a (rs\<lparr>memoryState := newMemory e\<rparr>) (log (InitMemory (firstRuntime f)) s)))
      | L97 \<Rightarrow>
          deref (result f) (log (WorkerInit True) s) (\<lambda>a rs.
            Returns (f\<lparr>pc := L99\<rparr>)
              (store a (rs\<lparr>worker := newWorker e\<rparr>) (log (WorkerInit True) s)))
      | L99 \<Rightarrow>
          if firstRuntime f
          then Returns (f\<lparr>pc := (if KONAN_OBJC_INTEROP c then L102 else L104)\<rparr>) (log ConsoleInit s)
          else Returns (f\<lparr>pc := L106\<rparr>) s
      | L102 \<Rightarrow> Returns (f\<lparr>pc := L104\<rparr>) (log ObjCExport_initialize s)
      | L104 \<Rightarrow>
          deref (result f) s (\<lambda>a rs.
            bind (InitOrDeinitGlobalVariables INIT_GLOBALS (memoryState rs) s)
              (\<lambda>_ s'. Returns (f\<lparr>pc := L106\<rparr>) s'))
      | L106 \<Rightarrow>
          deref (result f) s (\<lambda>a rs.
            bind (InitOrDeinitGlobalVariables INIT_THREAD_LOCAL_GLOBALS (memoryState rs) s)
              (\<lambda>_ s'. Returns (f\<lparr>pc := L107\<rparr>) s'))
      | L107 \<Rightarrow>
          deref (result f) s (\<lambda>a rs.
            RuntimeAssert c (status rs = kUninitialized)
              ''Runtime must still be in the uninitialized state'' s
              (Returns (f\<lparr>pc := L108\<rparr>) s))
      | L108 \<Rightarrow>
          deref (result f) s (\<lambda>a rs.
            Returns (f\<lparr>pc := L155\<rparr>) (store a (rs\<lparr>status := kRunning\<rparr>) s))
      | L155 \<Rightarrow> Returns (f\<lparr>pc := Done\<rparr>) (onThreadExit t (runtimeState s t) s)
      | Done \<Rightarrow> Returns f s)"

text \<open>Threads that execute the call at the same time: a schedule lists the threads in the
  order in which they take their steps, \<open>es\<close> gives every thread the environment of its
  call, and \<open>fs\<close> the frame of every thread. \<open>statusHistory\<close> is the sequence of values
  that \<^verbatim>\<open>globalRuntimeStatus\<close> has before the first and after each step.\<close>

fun runThreads ::
  "config \<Rightarrow> (tid \<Rightarrow> env) \<Rightarrow> tid list \<Rightarrow> (tid \<Rightarrow> frame) \<Rightarrow> state \<Rightarrow> (tid \<Rightarrow> frame) outcome"
where
  "runThreads c es [] fs s = Returns fs s"
| "runThreads c es (t # sch) fs s =
     bind (initStep c t (es t) (fs t) s) (\<lambda>f s'. runThreads c es sch (fs(t := f)) s')"









subsection \<open>Example states\<close>

text \<open>A process with three initializer nodes, at the addresses 1, 2 and 3, before
  anything has been registered; the \<^verbatim>\<open>next\<close> field of node 3 points to node 1, the
  others are null. Then the states with node 1 registered once, with node 1 registered a
  second time, and with only node 3 registered.\<close>

definition demoConfig :: config where
  "demoConfig = \<lparr>enableAsserts = True, KONAN_OBJC_INTEROP = False, KonanNeedDebugInfo = False\<rparr>"

definition demoStart :: state where
  "demoStart =
     \<lparr>nodes = [1 \<mapsto> \<lparr>init = 10, next = None\<rparr>, 2 \<mapsto> \<lparr>init = 20, next = None\<rparr>,
               3 \<mapsto> \<lparr>init = 30, next = Some 1\<rparr>],
      initHeadNode = None, initTailNode = None,
      g_checkLeaks = False, g_checkLeakedCleaners = False,
      runtimeState = (\<lambda>t. None), aliveRuntimesCount = 0,
      globalRuntimeStatus = Global_kUninitialized,
      heap = Map.empty, exitCallbacks = (\<lambda>t. []), trace = []\<rparr>"

definition demoOnce :: state where
  "demoOnce = demoStart\<lparr>initHeadNode := Some 1, initTailNode := Some 1\<rparr>"

definition demoTwice :: state where
  "demoTwice = demoOnce\<lparr>nodes := (nodes demoOnce)(1 \<mapsto> \<lparr>init = 10, next = Some 1\<rparr>)\<rparr>"

definition demoLinked :: state where
  "demoLinked = demoStart\<lparr>initHeadNode := Some 3, initTailNode := Some 3\<rparr>"

text \<open>Nodes 1 and 2 registered; then thread 0 with a runtime (the first one of the
  process); then threads 0 and 1 with a runtime; and the state in which
  \<^verbatim>\<open>Kotlin_destroyRuntime\<close>, called by thread 0 in the latter, aborts.\<close>

definition demoEnv :: env where
  "demoEnv = \<lparr>allocOk = True, newInstance = 100, newMemory = Some 7, newWorker = Some 8\<rparr>"

definition demoEnv1 :: env where
  "demoEnv1 = \<lparr>allocOk = True, newInstance = 101, newMemory = Some 7, newWorker = Some 8\<rparr>"

definition demoRegistered :: state where
  "demoRegistered =
     demoOnce\<lparr>nodes := (nodes demoOnce)(1 \<mapsto> \<lparr>init = 10, next = Some 2\<rparr>),
              initTailNode := Some 2\<rparr>"

definition demoOneThread :: state where
  "demoOneThread =
     onThreadExit 0 (Some 100) (afterInit demoConfig 0 demoEnv [(1, 10), (2, 20)] demoRegistered)"

definition demoTwoThreads :: state where
  "demoTwoThreads =
     onThreadExit 1 (Some 101) (afterInit demoConfig 1 demoEnv1 [(1, 10), (2, 20)] demoOneThread)"

definition demoAborted :: state where
  "demoAborted = log (ConsoleErrorf aliveThreadsMessage [1]) (afterShutdown demoTwoThreads)"

text \<open>The state after \<^verbatim>\<open>Kotlin_destroyRuntime\<close>, called by thread 0 while it is the only
  thread with a runtime.\<close>

definition demoDestroyed :: state where
  "demoDestroyed =
     (afterDeinit True 100 \<lparr>memoryState = Some 7, worker = Some 8, status = kRunning\<rparr>
        [(1, 10), (2, 20)] (afterShutdown demoOneThread))
     \<lparr>runtimeState := (runtimeState demoOneThread)(0 := None)\<rparr>"






section \<open>Properties\<close>

subsection \<open>Chains of initializer nodes\<close>

lemma chain_Cons [simp]:
  "chain ns p (x # xs) \<longleftrightarrow>
     p = Some (fst x) \<and> (\<exists>n. ns (fst x) = Some n \<and> init n = snd x \<and> chain ns (next n) xs)"
  by (auto split: option.splits)

declare chain.simps(2) [simp del]

lemma chain_unique: "chain ns p xs \<Longrightarrow> chain ns p ys \<Longrightarrow> xs = ys"
proof (induction xs arbitrary: p ys)
  case Nil
  then show ?case by (cases ys) auto
next
  case (Cons x xs)
  obtain a f where x: "x = (a, f)" by (cases x)
  from Cons.prems(1) x obtain n where n: "p = Some a" "ns a = Some n" "init n = f" "chain ns (next n) xs"
    by auto
  from Cons.prems(2) n(1) obtain y ys' where ys: "ys = y # ys'" by (cases ys) auto
  obtain b g where y: "y = (b, g)" by (cases y)
  from Cons.prems(2) ys y n have "b = a" "g = f" "chain ns (next n) ys'"
    by auto
  with Cons.IH[OF n(4)] x y ys show ?case by simp
qed

lemma chain_suffix: "chain ns p (us @ (a, f) # vs) \<Longrightarrow> chain ns (Some a) ((a, f) # vs)"
proof (induction us arbitrary: p)
  case Nil
  then show ?case by simp
next
  case (Cons u us)
  obtain b g where u: "u = (b, g)" by (cases u)
  from Cons.prems u obtain n :: InitNode where "chain ns (next n) (us @ (a, f) # vs)"
    by auto
  then show ?case by (rule Cons.IH)
qed

text \<open>A chain that ends in \<^verbatim>\<open>nullptr\<close> cannot pass through a node twice.\<close>

lemma chain_fresh_head:
  assumes "chain ns (Some a) ((a, f) # xs)"
  shows "a \<notin> fst ` set xs"
proof
  assume "a \<in> fst ` set xs"
  then obtain g where "(a, g) \<in> set xs" by auto
  then obtain us vs where xs: "xs = us @ (a, g) # vs" by (auto simp: in_set_conv_decomp)
  from assms obtain n where n: "ns a = Some n" "chain ns (next n) xs"
    by auto
  from n(2) xs have "chain ns (Some a) ((a, g) # vs)" using chain_suffix by blast
  with assms have "(a, f) # xs = (a, g) # vs" by (rule chain_unique)
  with xs show False by (auto dest: arg_cong[where f=length])
qed

lemma chain_distinct: "chain ns p xs \<Longrightarrow> distinct (map fst xs)"
proof (induction xs arbitrary: p)
  case Nil
  show ?case by simp
next
  case (Cons x xs)
  obtain a f where x: "x = (a, f)" by (cases x)
  from Cons.prems x have p: "p = Some a" by simp
  from Cons.prems x obtain n where n: "ns a = Some n" "chain ns (next n) xs"
    by auto
  from Cons.prems x p have "a \<notin> fst ` set xs" using chain_fresh_head by blast
  with Cons.IH[OF n(2)] x show ?case by simp
qed

lemma chain_update_other:
  "a \<notin> fst ` set xs \<Longrightarrow> chain (ns(a \<mapsto> n)) p xs = chain ns p xs"
  by (induction xs arbitrary: p) (auto split: option.splits)

lemma chain_snoc:
  assumes "chain ns p (xs @ [(t, f)])" and "ns t = Some n" and "chain ns q ys" and "t \<notin> fst ` set ys"
  shows "chain (ns(t \<mapsto> n\<lparr>next := q\<rparr>)) p (xs @ (t, f) # ys)"
  using assms(1)
proof (induction xs arbitrary: p)
  case Nil
  have "chain (ns(t \<mapsto> n\<lparr>next := q\<rparr>)) q ys"
    using chain_update_other[OF assms(4)] assms(3) by simp
  moreover from Nil assms(2) have "p = Some t" "init n = f" by auto
  ultimately show ?case by (simp del: fun_upd_apply add: fun_upd_same)
next
  case (Cons x xs)
  obtain a g where x: "x = (a, g)" by (cases x)
  from Cons.prems(1) x obtain m where m: "p = Some a" "ns a = Some m" "init m = g" "chain ns (next m) (xs @ [(t, f)])"
    by auto
  have "chain ns (Some a) ((a, g) # xs @ [(t, f)])" using m by simp
  then have "a \<notin> fst ` set (xs @ [(t, f)])" by (rule chain_fresh_head)
  then have "a \<noteq> t" by auto
  with Cons.IH[OF m(4)] m x show ?case by simp
qed

subsection \<open>The traversal\<close>

lemma traverse_chain:
  "chain ns p xs \<Longrightarrow>
   traverse ns initialize memory p tr =
     Some (Inr (tr @ map (\<lambda>x. Invoke (snd x) initialize memory) xs))"
proof (induction xs arbitrary: p tr)
  case Nil
  then show ?case by (simp add: traverse.simps)
next
  case (Cons x xs)
  obtain a f where x: "x = (a, f)" by (cases x)
  from Cons.prems x obtain n where n: "p = Some a" "ns a = Some n" "init n = f" "chain ns (next n) xs"
    by auto
  show ?case
    by (subst traverse.simps) (simp add: n x Cons.IH[OF n(4)])
qed

text \<open>Conversely, a traversal that returns has followed a chain: by induction on the
  computation of the loop.\<close>

lemma traverse_returns:
  assumes "traverse ns initialize memory p tr = Some (Inr tr')"
  shows "\<exists>xs. chain ns p xs \<and> tr' = tr @ map (\<lambda>x. Invoke (snd x) initialize memory) xs"
proof -
  have "\<forall>tr'. r = Inr tr' \<longrightarrow>
          (\<exists>xs. chain ns p xs \<and> tr' = tr @ map (\<lambda>x. Invoke (snd x) initialize memory) xs)"
    if "traverse ns initialize memory p tr = Some r" for r
    using that
  proof (rule traverse.raw_induct[rotated, where P = "\<lambda>ns i m p tr r. \<forall>tr'. r = Inr tr' \<longrightarrow>
          (\<exists>xs. chain ns p xs \<and> tr' = tr @ map (\<lambda>x. Invoke (snd x) i m) xs)"])
    fix trav ns i m cur tr0 r0
    assume IH: "\<And>ns i m p tr r. trav ns i m p tr = Some r \<Longrightarrow> \<forall>tr'. r = Inr tr' \<longrightarrow>
          (\<exists>xs. chain ns p xs \<and> tr' = tr @ map (\<lambda>x. Invoke (snd x) i m) xs)"
      and body: "(case cur of None \<Rightarrow> Some (Inr tr0)
         | Some a \<Rightarrow> (case ns a of None \<Rightarrow> Some (Inl tr0)
             | Some n \<Rightarrow> trav ns i m (next n) (tr0 @ [Invoke (init n) i m]))) = Some r0"
    show "\<forall>tr'. r0 = Inr tr' \<longrightarrow>
          (\<exists>xs. chain ns cur xs \<and> tr' = tr0 @ map (\<lambda>x. Invoke (snd x) i m) xs)"
    proof (intro allI impI)
      fix tr'
      assume r0: "r0 = Inr tr'"
      show "\<exists>xs. chain ns cur xs \<and> tr' = tr0 @ map (\<lambda>x. Invoke (snd x) i m) xs"
      proof (cases cur)
        case None
        with body r0 have "chain ns cur [] \<and> tr' = tr0 @ map (\<lambda>x. Invoke (snd x) i m) []" by simp
        then show ?thesis by blast
      next
        case (Some a)
        show ?thesis
        proof (cases "ns a")
          case None
          with body Some r0 show ?thesis by simp
        next
          case (Some n)
          with body \<open>cur = Some a\<close>
          have "trav ns i m (next n) (tr0 @ [Invoke (init n) i m]) = Some r0" by simp
          from IH[OF this] r0 obtain xs where
            xs: "chain ns (next n) xs"
                "tr' = (tr0 @ [Invoke (init n) i m]) @ map (\<lambda>x. Invoke (snd x) i m) xs"
            by blast
          then have "chain ns cur ((a, init n) # xs) \<and>
             tr' = tr0 @ map (\<lambda>x. Invoke (snd x) i m) ((a, init n) # xs)"
            using Some \<open>cur = Some a\<close> by simp
          then show ?thesis by blast
        qed
      qed
    qed
  qed
  with assms show ?thesis by blast
qed

text \<open>On a node that points to itself the loop never ends.\<close>

lemma traverse_cycle:
  assumes "ns a = Some n" "next n = Some a"
  shows "traverse ns initialize memory (Some a) tr = None"
proof -
  have "ns' = ns \<and> p = Some a \<longrightarrow> False"
    if "traverse ns' i m p tr0 = Some r" for ns' i m p tr0 r
    using that
  proof (rule traverse.raw_induct[rotated, where P = "\<lambda>ns' i m p tr r. ns' = ns \<and> p = Some a \<longrightarrow> False"])
    fix trav ns' i m cur tr0 r0
    assume IH: "\<And>ns' i m p tr r. trav ns' i m p tr = Some r \<Longrightarrow> ns' = ns \<and> p = Some a \<longrightarrow> False"
      and body: "(case cur of None \<Rightarrow> Some (Inr tr0)
         | Some a \<Rightarrow> (case ns' a of None \<Rightarrow> Some (Inl tr0)
             | Some n \<Rightarrow> trav ns' i m (next n) (tr0 @ [Invoke (init n) i m]))) = Some r0"
    show "ns' = ns \<and> cur = Some a \<longrightarrow> False"
    proof
      assume h: "ns' = ns \<and> cur = Some a"
      with body assms have "trav ns i m (Some a) (tr0 @ [Invoke (init n) i m]) = Some r0" by simp
      from IH[OF this] show False by simp
    qed
  qed
  then have "traverse ns initialize memory (Some a) tr \<noteq> Some r" for r by blast
  then show ?thesis by (cases "traverse ns initialize memory (Some a) tr") auto
qed

lemma InitOrDeinit_chain:
  assumes "chain (nodes s) (initHeadNode s) xs"
  shows "InitOrDeinitGlobalVariables initialize memory s =
           Returns () (s\<lparr>trace := trace s @ phaseEvents initialize memory xs\<rparr>)"
  by (simp add: InitOrDeinitGlobalVariables_def traverse_chain[OF assms] phaseEvents_def)

lemma InitOrDeinit_Returns:
  assumes "InitOrDeinitGlobalVariables initialize memory s = Returns u s'"
  shows "\<exists>xs. chain (nodes s) (initHeadNode s) xs \<and>
               s' = s\<lparr>trace := trace s @ phaseEvents initialize memory xs\<rparr>"
proof -
  from assms obtain tr' where
    t: "traverse (nodes s) initialize memory (initHeadNode s) (trace s @ [RunPhase initialize memory])
          = Some (Inr tr')" and s': "s' = s\<lparr>trace := tr'\<rparr>"
    by (auto simp: InitOrDeinitGlobalVariables_def split: option.splits sum.splits)
  from traverse_returns[OF t] s' show ?thesis by (auto simp: phaseEvents_def)
qed

lemma bind_Returns_iff:
  "bind m k = Returns v s' \<longleftrightarrow> (\<exists>u s1. m = Returns u s1 \<and> k u s1 = Returns v s')"
  by (cases m) auto

subsection \<open>Registration\<close>

lemma Append_registry:
  assumes "registry s xs" and "nodes s a = Some n" and "next n = None" and "a \<notin> fst ` set xs"
  shows "\<exists>s'. AppendToInitializersTail (Some a) s = Returns () s' \<and>
              registry s' (xs @ [(a, init n)]) \<and> trace s' = trace s"
proof (cases xs rule: rev_cases)
  case Nil
  with assms show ?thesis
    by (auto simp: AppendToInitializersTail_def registry_def)
next
  case (snoc ys y)
  obtain t f where y: "y = (t, f)" by (cases y)
  from assms(1) snoc y have ch: "chain (nodes s) (initHeadNode s) (ys @ [(t, f)])"
    and tl: "initTailNode s = Some t"
    by (auto simp: registry_def)
  from chain_suffix[OF ch] obtain m where m: "nodes s t = Some m" by auto
  from ch have hd: "initHeadNode s \<noteq> None" by (cases ys) auto
  from assms(4) snoc y have "a \<noteq> t" by auto
  have "chain (nodes s) (Some a) [(a, init n)]" using assms(2,3) by simp
  from chain_snoc[OF ch m this] \<open>a \<noteq> t\<close>
  have "chain ((nodes s)(t \<mapsto> m\<lparr>next := Some a\<rparr>)) (initHeadNode s) (ys @ [(t, f), (a, init n)])"
    by simp
  with hd tl m snoc y show ?thesis
    by (auto simp: AppendToInitializersTail_def registry_def)
qed

text \<open>
  Claim C6, as stated, fails: \<^verbatim>\<open>AppendToInitializersTail\<close> neither checks that the node
  is new nor clears its \<^verbatim>\<open>next\<close> field. Registering node 1 of \<open>demoStart\<close> twice
  makes the node its own successor, and \<^verbatim>\<open>InitOrDeinitGlobalVariables\<close> then invokes
  its callback without end instead of once per registration. Registering node 3, whose
  \<^verbatim>\<open>next\<close> field points to node 1, puts node 1 behind it: the list does not end with
  the given node, and the callback of node 1 is invoked although node 1 was never
  registered.
\<close>

theorem C6_register_twice_counterexample:
  "AppendToInitializersTail (Some 1) demoStart = Returns () demoOnce \<and>
   AppendToInitializersTail (Some 1) demoOnce = Returns () demoTwice \<and>
   InitOrDeinitGlobalVariables INIT_GLOBALS None demoTwice = Hangs \<and>
   AppendToInitializersTail (Some 3) demoStart = Returns () demoLinked \<and>
   InitOrDeinitGlobalVariables INIT_GLOBALS None demoLinked =
     Returns () (demoLinked\<lparr>trace :=
       [RunPhase INIT_GLOBALS None, Invoke 30 INIT_GLOBALS None, Invoke 10 INIT_GLOBALS None]\<rparr>)"
proof -
  have "AppendToInitializersTail (Some 1) demoStart = Returns () demoOnce"
    by (simp add: AppendToInitializersTail_def demoOnce_def demoStart_def)
  moreover have "AppendToInitializersTail (Some 1) demoOnce = Returns () demoTwice"
    by (simp add: AppendToInitializersTail_def demoTwice_def demoOnce_def demoStart_def)
  moreover have "traverse (nodes demoTwice) INIT_GLOBALS None (Some 1) tr = None" for tr
    by (rule traverse_cycle[where n = "\<lparr>init = 10, next = Some 1\<rparr>"])
       (simp_all add: demoTwice_def demoOnce_def demoStart_def)
  then have "InitOrDeinitGlobalVariables INIT_GLOBALS None demoTwice = Hangs"
    by (simp add: InitOrDeinitGlobalVariables_def demoTwice_def demoOnce_def demoStart_def)
  moreover have "AppendToInitializersTail (Some 3) demoStart = Returns () demoLinked"
    by (simp add: AppendToInitializersTail_def demoLinked_def demoStart_def)
  moreover have "chain (nodes demoLinked) (initHeadNode demoLinked) [(3, 30), (1, 10)]"
    by (simp add: demoLinked_def demoStart_def)
  from InitOrDeinit_chain[OF this, of INIT_GLOBALS None]
  have "InitOrDeinitGlobalVariables INIT_GLOBALS None demoLinked =
     Returns () (demoLinked\<lparr>trace :=
       [RunPhase INIT_GLOBALS None, Invoke 30 INIT_GLOBALS None, Invoke 10 INIT_GLOBALS None]\<rparr>)"
    by (simp add: phaseEvents_def) (simp add: demoLinked_def demoStart_def)
  ultimately show ?thesis by simp
qed

text \<open>
  Claim C6, amended: for a node that is not yet in the list and whose \<^verbatim>\<open>next\<close> field
  is null, \<^verbatim>\<open>AppendToInitializersTail\<close> returns with the list extended by that node at
  the tail, all earlier nodes and their order kept and no node twice in the list; and
  on a list built in this way \<^verbatim>\<open>InitOrDeinitGlobalVariables\<close> returns after invoking
  the callback of every node once, from head to tail, each with the given phase tag and
  memory-state handle.
\<close>

theorem C6_append_and_run_phase:
  assumes "registry s xs" and "nodes s a = Some n" and "next n = None" and "a \<notin> fst ` set xs"
  shows "\<exists>s'. AppendToInitializersTail (Some a) s = Returns () s' \<and>
              registry s' (xs @ [(a, init n)]) \<and>
              distinct (map fst (xs @ [(a, init n)])) \<and>
              (\<forall>initialize memory.
                 InitOrDeinitGlobalVariables initialize memory s =
                   Returns () (s\<lparr>trace := trace s @ RunPhase initialize memory #
                      map (\<lambda>x. Invoke (snd x) initialize memory) xs\<rparr>) \<and>
                 InitOrDeinitGlobalVariables initialize memory s' =
                   Returns () (s'\<lparr>trace := trace s' @ RunPhase initialize memory #
                      map (\<lambda>x. Invoke (snd x) initialize memory) (xs @ [(a, init n)])\<rparr>))"
proof -
  from Append_registry[OF assms] obtain s' where
    s': "AppendToInitializersTail (Some a) s = Returns () s'" "registry s' (xs @ [(a, init n)])"
    by blast
  from assms(1) have "chain (nodes s) (initHeadNode s) xs" by (simp add: registry_def)
  note a = InitOrDeinit_chain[OF this]
  from s'(2) have "chain (nodes s') (initHeadNode s') (xs @ [(a, init n)])"
    by (simp add: registry_def)
  note b = InitOrDeinit_chain[OF this] and d = chain_distinct[OF this]
  from s' a b d show ?thesis by (auto simp: phaseEvents_def)
qed

theorem C6_append_and_run_phase_witness:
  "\<exists>s'. AppendToInitializersTail (Some 2) demoOnce = Returns () s' \<and>
        registry s' [(1, 10), (2, 20)] \<and>
        InitOrDeinitGlobalVariables DEINIT_GLOBALS (Some 7) s' =
          Returns () (s'\<lparr>trace := trace s' @
            [RunPhase DEINIT_GLOBALS (Some 7), Invoke 10 DEINIT_GLOBALS (Some 7),
             Invoke 20 DEINIT_GLOBALS (Some 7)]\<rparr>)"
proof -
  have "registry demoOnce [(1, 10)]"
    by (simp add: registry_def demoOnce_def demoStart_def)
  moreover have "nodes demoOnce 2 = Some \<lparr>init = 20, next = None\<rparr>"
    by (simp add: demoOnce_def demoStart_def)
  ultimately show ?thesis
    using C6_append_and_run_phase[of demoOnce "[(1, 10)]" 2 "\<lparr>init = 20, next = None\<rparr>"]
    by fastforce
qed

subsection \<open>What the lifecycle operations compute\<close>

lemma deinitRuntime_chain:
  assumes "heap s a = Some rs" and "enableAsserts c \<longrightarrow> status rs = kRunning"
    and "chain (nodes s) (initHeadNode s) xs"
  shows "deinitRuntime c (Some a) destroyRuntime s =
           Returns () (s\<lparr>aliveRuntimesCount := aliveRuntimesCount s - 1,
                         heap := (heap s)(a := None),
                         trace := trace s @ deinitEvents destroyRuntime rs xs\<rparr>)"
  using assms
  by (simp add: deinitRuntime_def deref_def RuntimeAssert_def store_def log_def Let_def
      konanDestructInstance_def deinitEvents_def InitOrDeinit_chain[where xs = xs])

lemma deinitRuntime_Returns:
  assumes "deinitRuntime c p destroyRuntime s = Returns u s'"
  shows "\<exists>a rs xs. p = Some a \<and> heap s a = Some rs \<and> (enableAsserts c \<longrightarrow> status rs = kRunning) \<and>
           chain (nodes s) (initHeadNode s) xs \<and>
           s' = s\<lparr>aliveRuntimesCount := aliveRuntimesCount s - 1,
                   heap := (heap s)(a := None),
                   trace := trace s @ deinitEvents destroyRuntime rs xs\<rparr>"
proof -
  from assms obtain a rs where p: "p = Some a" and rs: "heap s a = Some rs"
    by (auto simp: deinitRuntime_def deref_def split: option.splits)
  from assms p rs have st: "enableAsserts c \<longrightarrow> status rs = kRunning"
    by (auto simp: deinitRuntime_def deref_def RuntimeAssert_def split: if_splits)
  from assms p rs st have
    "\<exists>sx v s1. InitOrDeinitGlobalVariables DEINIT_THREAD_LOCAL_GLOBALS (memoryState rs) sx = Returns v s1 \<and>
       nodes sx = nodes s \<and> initHeadNode sx = initHeadNode s"
    by (fastforce simp: deinitRuntime_def deref_def RuntimeAssert_def store_def log_def Let_def
        bind_Returns_iff split: if_splits)
  then obtain sx v s1 where
    "InitOrDeinitGlobalVariables DEINIT_THREAD_LOCAL_GLOBALS (memoryState rs) sx = Returns v s1"
    "nodes sx = nodes s" "initHeadNode sx = initHeadNode s"
    by blast
  from InitOrDeinit_Returns[OF this(1)] this(2,3) obtain xs where "chain (nodes s) (initHeadNode s) xs"
    by auto
  from deinitRuntime_chain[OF rs st this, of destroyRuntime] assms p this rs st
  show ?thesis by auto
qed

lemma initRuntime_no_memory:
  "\<not> allocOk e \<Longrightarrow> initRuntime c t e s = Returns None (log SetKonanTerminateHandler s)"
  by (simp add: initRuntime_def konanConstructInstance_def kInvalidRuntime_def)

lemma initRuntime_chain:
  assumes "allocOk e" and "runtimeState s t = None"
    and "globalRuntimeStatus s \<noteq> Global_kDestroyed"
    and "chain (nodes s) (initHeadNode s) xs"
  shows "initRuntime c t e s = Returns (Some (newInstance e)) (afterInit c t e xs s)"
proof (cases "globalRuntimeStatus s = Global_kUninitialized")
  case True
  with assms show ?thesis
    by (simp add: initRuntime_def konanConstructInstance_def kInvalidRuntime_def
        isValidRuntime_def RuntimeCheck_def RuntimeAssert_def deref_def store_def log_def
        Let_def initEvents_def afterInit_def InitOrDeinit_chain[where xs = xs])
next
  case False
  with assms(3) have "globalRuntimeStatus s = Global_kRunning"
    by (cases "globalRuntimeStatus s") auto
  with assms show ?thesis
    by (simp add: initRuntime_def konanConstructInstance_def kInvalidRuntime_def
        isValidRuntime_def RuntimeCheck_def RuntimeAssert_def deref_def store_def log_def
        Let_def initEvents_def afterInit_def InitOrDeinit_chain[where xs = xs])
qed

lemma initRuntime_Returns:
  assumes "initRuntime c t e s = Returns r s'"
  shows "(\<not> allocOk e \<and> r = None \<and> s' = log SetKonanTerminateHandler s) \<or>
         (allocOk e \<and> runtimeState s t = None \<and> globalRuntimeStatus s \<noteq> Global_kDestroyed \<and>
          r = Some (newInstance e) \<and>
          (\<exists>xs. chain (nodes s) (initHeadNode s) xs \<and> s' = afterInit c t e xs s))"
proof (cases "allocOk e")
  case False
  with assms show ?thesis by (simp add: initRuntime_no_memory)
next
  case True
  from assms True have v: "runtimeState s t = None"
    by (auto simp: initRuntime_def konanConstructInstance_def kInvalidRuntime_def
        isValidRuntime_def RuntimeCheck_def log_def Let_def split: if_splits)
  from assms True v have g: "globalRuntimeStatus s \<noteq> Global_kDestroyed"
    by (auto simp: initRuntime_def konanConstructInstance_def kInvalidRuntime_def
        isValidRuntime_def RuntimeCheck_def log_def Let_def split: if_splits)
  have "\<exists>sx ph m v s1. InitOrDeinitGlobalVariables ph m sx = Returns v s1 \<and>
       nodes sx = nodes s \<and> initHeadNode sx = initHeadNode s"
  proof (cases "globalRuntimeStatus s = Global_kUninitialized")
    case u: True
    show ?thesis
    proof (cases "KONAN_OBJC_INTEROP c")
      case True
      with assms \<open>allocOk e\<close> v g u show ?thesis
        by (fastforce simp: initRuntime_def konanConstructInstance_def kInvalidRuntime_def
          isValidRuntime_def RuntimeCheck_def deref_def store_def log_def Let_def
          bind_Returns_iff)
    next
      case False
      with assms \<open>allocOk e\<close> v g u show ?thesis
        by (fastforce simp: initRuntime_def konanConstructInstance_def kInvalidRuntime_def
          isValidRuntime_def RuntimeCheck_def deref_def store_def log_def Let_def
          bind_Returns_iff)
    qed
  next
    case False
    with g have "globalRuntimeStatus s = Global_kRunning"
      by (cases "globalRuntimeStatus s") auto
    with assms \<open>allocOk e\<close> v g show ?thesis
      by (fastforce simp: initRuntime_def konanConstructInstance_def kInvalidRuntime_def
        isValidRuntime_def RuntimeCheck_def deref_def store_def log_def Let_def
        bind_Returns_iff)
  qed
  then obtain sx ph m v1 s1 where
    "InitOrDeinitGlobalVariables ph m sx = Returns v1 s1"
    "nodes sx = nodes s" "initHeadNode sx = initHeadNode s"
    by blast
  from InitOrDeinit_Returns[OF this(1)] this(2,3) obtain xs where xs: "chain (nodes s) (initHeadNode s) xs"
    by auto
  from initRuntime_chain[OF True v g xs, of c] assms True v g xs show ?thesis by auto
qed

lemma initIfNeeded_valid:
  "runtimeState s t \<noteq> None \<Longrightarrow> Kotlin_initRuntimeIfNeeded c t e s = Returns () s"
  by (simp add: Kotlin_initRuntimeIfNeeded_def isValidRuntime_def kInvalidRuntime_def)

lemma initIfNeeded_destroyed:
  "runtimeState s t = None \<Longrightarrow> globalRuntimeStatus s = Global_kDestroyed \<Longrightarrow>
   Kotlin_initRuntimeIfNeeded c t e s = Aborts (log (ConsoleErrorf destroyedMessage []) s)"
  by (simp add: Kotlin_initRuntimeIfNeeded_def isValidRuntime_def kInvalidRuntime_def
      destroyedMessage_def)

lemma initIfNeeded_no_memory:
  "runtimeState s t = None \<Longrightarrow> globalRuntimeStatus s \<noteq> Global_kDestroyed \<Longrightarrow> \<not> allocOk e \<Longrightarrow>
   Kotlin_initRuntimeIfNeeded c t e s =
     Returns () (onThreadExit t None (log SetKonanTerminateHandler s))"
  by (simp add: Kotlin_initRuntimeIfNeeded_def isValidRuntime_def kInvalidRuntime_def
      initRuntime_no_memory log_def)

lemma initIfNeeded_chain:
  assumes "runtimeState s t = None" and "globalRuntimeStatus s \<noteq> Global_kDestroyed"
    and "allocOk e" and "chain (nodes s) (initHeadNode s) xs"
  shows "Kotlin_initRuntimeIfNeeded c t e s =
           Returns () (onThreadExit t (Some (newInstance e)) (afterInit c t e xs s))"
  using assms
  by (simp add: Kotlin_initRuntimeIfNeeded_def isValidRuntime_def kInvalidRuntime_def
      initRuntime_chain[where xs = xs] afterInit_def)

lemma initIfNeeded_Returns:
  assumes "Kotlin_initRuntimeIfNeeded c t e s = Returns u s'"
  shows "(runtimeState s t \<noteq> None \<and> s' = s) \<or>
         (runtimeState s t = None \<and> globalRuntimeStatus s \<noteq> Global_kDestroyed \<and> \<not> allocOk e \<and>
            s' = onThreadExit t None (log SetKonanTerminateHandler s)) \<or>
         (runtimeState s t = None \<and> globalRuntimeStatus s \<noteq> Global_kDestroyed \<and> allocOk e \<and>
            (\<exists>xs. chain (nodes s) (initHeadNode s) xs \<and>
                  s' = onThreadExit t (Some (newInstance e)) (afterInit c t e xs s)))"
proof (cases "runtimeState s t")
  case (Some a)
  with assms show ?thesis by (simp add: initIfNeeded_valid)
next
  case None
  with assms have g: "globalRuntimeStatus s \<noteq> Global_kDestroyed"
    by (auto simp: initIfNeeded_destroyed)
  show ?thesis
  proof (cases "allocOk e")
    case False
    with assms None g show ?thesis by (simp add: initIfNeeded_no_memory)
  next
    case True
    from assms None g obtain r s1 where "initRuntime c t e s = Returns r s1"
      by (auto simp: Kotlin_initRuntimeIfNeeded_def isValidRuntime_def kInvalidRuntime_def
          bind_Returns_iff)
    from initRuntime_Returns[OF this] True obtain xs where "chain (nodes s) (initHeadNode s) xs"
      by auto
    from initIfNeeded_chain[OF None g True this, of c] assms None g True this
    show ?thesis by auto
  qed
qed

lemma deinitIfNeeded_invalid:
  "runtimeState s t = None \<Longrightarrow> Kotlin_deinitRuntimeIfNeeded c t s = Returns () s"
  by (simp add: Kotlin_deinitRuntimeIfNeeded_def isValidRuntime_def kInvalidRuntime_def)

lemma deinitIfNeeded_chain:
  assumes "runtimeState s t = Some a" and "heap s a = Some rs"
    and "enableAsserts c \<longrightarrow> status rs = kRunning"
    and "chain (nodes s) (initHeadNode s) xs"
  shows "Kotlin_deinitRuntimeIfNeeded c t s =
           Returns () ((afterDeinit False a rs xs s)\<lparr>runtimeState := (runtimeState s)(t := None)\<rparr>)"
  using assms
  by (simp add: Kotlin_deinitRuntimeIfNeeded_def isValidRuntime_def kInvalidRuntime_def
      deinitRuntime_chain[where xs = xs and rs = rs] afterDeinit_def)

lemma deinitIfNeeded_Returns:
  assumes "Kotlin_deinitRuntimeIfNeeded c t s = Returns u s'"
  shows "(runtimeState s t = None \<and> s' = s) \<or>
         (\<exists>a rs xs. runtimeState s t = Some a \<and> heap s a = Some rs \<and>
            (enableAsserts c \<longrightarrow> status rs = kRunning) \<and>
            chain (nodes s) (initHeadNode s) xs \<and>
            s' = (afterDeinit False a rs xs s)\<lparr>runtimeState := (runtimeState s)(t := None)\<rparr>)"
proof (cases "runtimeState s t")
  case None
  with assms show ?thesis by (simp add: deinitIfNeeded_invalid)
next
  case (Some a)
  with assms obtain v s1 where "deinitRuntime c (Some a) False s = Returns v s1"
    by (auto simp: Kotlin_deinitRuntimeIfNeeded_def isValidRuntime_def kInvalidRuntime_def
        bind_Returns_iff)
  from deinitRuntime_Returns[OF this] obtain rs xs where
    h: "heap s a = Some rs" "enableAsserts c \<longrightarrow> status rs = kRunning"
       "chain (nodes s) (initHeadNode s) xs"
    by auto
  from deinitIfNeeded_chain[OF Some h] assms Some h show ?thesis by auto
qed

lemma bind_Aborts_iff:
  "bind m k = Aborts s' \<longleftrightarrow> m = Aborts s' \<or> (\<exists>u s1. m = Returns u s1 \<and> k u s1 = Aborts s')"
  by (cases m) auto

lemma deinitRuntime_not_Aborts: "deinitRuntime c p d s \<noteq> Aborts s'"
  by (auto simp: deinitRuntime_def deref_def RuntimeAssert_def Let_def
      InitOrDeinitGlobalVariables_def bind_Aborts_iff
      split: option.splits sum.splits)

lemma destroy_unfold:
  "Kotlin_destroyRuntime c t s =
     RuntimeAssert c (globalRuntimeStatus s = Global_kRunning) ''Kotlin runtime must be running'' s
     (RuntimeAssert c (isValidRuntime t s) ''Current thread must have Kotlin runtime on it.'' s
     (RuntimeAssert c (aliveRuntimesCount s - 1 \<ge> 0) ''Cannot be negative.'' (afterShutdown s)
         (if aliveRuntimesCount s - 1 > 0 then
            Aborts (log (ConsoleErrorf aliveThreadsMessage [aliveRuntimesCount s - 1])
                      (afterShutdown s))
          else
            bind (deinitRuntime c (runtimeState s t) True (afterShutdown s))
              (\<lambda>_ s4. Returns () (s4\<lparr>runtimeState := (runtimeState s4)(t := kInvalidRuntime)\<rparr>)))))"
  by (cases "g_checkLeakedCleaners s"; cases "g_checkLeaks s")
     (simp_all add: Kotlin_destroyRuntime_def aliveThreadsMessage_def Let_def
        Kotlin_cleanersLeakCheckerEnabled_def Kotlin_memoryLeakCheckerEnabled_def
        log_def afterShutdown_def shutdownEvents_def)

lemma destroy_Aborts:
  assumes "Kotlin_destroyRuntime c t s = Aborts s'"
  shows "0 < aliveRuntimesCount s - 1 \<and>
         s' = log (ConsoleErrorf aliveThreadsMessage [aliveRuntimesCount s - 1]) (afterShutdown s)"
  using assms
  by (auto simp: destroy_unfold RuntimeAssert_def bind_Aborts_iff deinitRuntime_not_Aborts
      split: if_splits)

lemma destroy_aborts:
  assumes "enableAsserts c \<longrightarrow> globalRuntimeStatus s = Global_kRunning \<and> runtimeState s t \<noteq> None"
    and "0 < aliveRuntimesCount s - 1"
  shows "Kotlin_destroyRuntime c t s =
           Aborts (log (ConsoleErrorf aliveThreadsMessage [aliveRuntimesCount s - 1])
                     (afterShutdown s))"
  using assms
  by (auto simp: destroy_unfold RuntimeAssert_def isValidRuntime_def kInvalidRuntime_def)

lemma destroy_chain:
  assumes "runtimeState s t = Some a" and "heap s a = Some rs"
    and "enableAsserts c \<longrightarrow>
           status rs = kRunning \<and> globalRuntimeStatus s = Global_kRunning \<and> 0 \<le> aliveRuntimesCount s - 1"
    and "aliveRuntimesCount s - 1 \<le> 0"
    and "chain (nodes s) (initHeadNode s) xs"
  shows "Kotlin_destroyRuntime c t s =
           Returns () ((afterDeinit True a rs xs (afterShutdown s))
                         \<lparr>runtimeState := (runtimeState s)(t := None)\<rparr>)"
proof -
  have "deinitRuntime c (Some a) True (afterShutdown s) =
          Returns () (afterDeinit True a rs xs (afterShutdown s))"
    unfolding afterDeinit_def
    by (rule deinitRuntime_chain) (use assms in \<open>simp_all add: afterShutdown_def\<close>)
  with assms show ?thesis
    by (auto simp: destroy_unfold RuntimeAssert_def isValidRuntime_def kInvalidRuntime_def
        afterDeinit_def afterShutdown_def)
qed

lemma destroy_Returns:
  assumes "Kotlin_destroyRuntime c t s = Returns u s'"
  shows "\<exists>a rs xs. runtimeState s t = Some a \<and> heap s a = Some rs \<and>
           (enableAsserts c \<longrightarrow>
              status rs = kRunning \<and> globalRuntimeStatus s = Global_kRunning \<and>
              0 \<le> aliveRuntimesCount s - 1) \<and>
           aliveRuntimesCount s - 1 \<le> 0 \<and>
           chain (nodes s) (initHeadNode s) xs \<and>
           s' = (afterDeinit True a rs xs (afterShutdown s))
                  \<lparr>runtimeState := (runtimeState s)(t := None)\<rparr>"
proof -
  from assms have pre: "enableAsserts c \<longrightarrow>
      globalRuntimeStatus s = Global_kRunning \<and> 0 \<le> aliveRuntimesCount s - 1"
    and le: "aliveRuntimesCount s - 1 \<le> 0"
    by (auto simp: destroy_unfold RuntimeAssert_def split: if_splits)
  from assms pre le obtain v s1 where
    d: "deinitRuntime c (runtimeState s t) True (afterShutdown s) = Returns v s1"
    by (auto simp: destroy_unfold RuntimeAssert_def bind_Returns_iff split: if_splits)
  from deinitRuntime_Returns[OF d] obtain a rs xs where
    h: "runtimeState s t = Some a" "heap s a = Some rs"
       "enableAsserts c \<longrightarrow> status rs = kRunning" "chain (nodes s) (initHeadNode s) xs"
    by (auto simp: afterShutdown_def)
  from h(3) pre have pre': "enableAsserts c \<longrightarrow>
           status rs = kRunning \<and> globalRuntimeStatus s = Global_kRunning \<and> 0 \<le> aliveRuntimesCount s - 1"
    by simp
  from destroy_chain[OF h(1,2) pre' le h(4)] assms h pre' le show ?thesis by auto
qed

lemma zeroOut_Returns:
  assumes "Kotlin_zeroOutTLSGlobals t s = Returns u s'"
  shows "\<exists>evs. s' = s\<lparr>trace := trace s @ evs\<rparr> \<and>
               (evs = [] \<or> (\<exists>m xs. evs = phaseEvents DEINIT_THREAD_LOCAL_GLOBALS m xs))"
proof (cases "\<exists>m sx. InitOrDeinitGlobalVariables DEINIT_THREAD_LOCAL_GLOBALS m s = Returns u s'")
  case True
  then obtain m where "InitOrDeinitGlobalVariables DEINIT_THREAD_LOCAL_GLOBALS m s = Returns u s'"
    by blast
  from InitOrDeinit_Returns[OF this] show ?thesis by blast
next
  case False
  with assms have "s' = s"
    by (auto simp: Kotlin_zeroOutTLSGlobals_def deref_def split: option.splits if_splits)
  then have "s' = s\<lparr>trace := trace s @ []\<rparr>" by simp
  then show ?thesis by blast
qed

subsection \<open>The invariant is kept\<close>












subsection \<open>Reachable states\<close>



subsection \<open>The example states are reachable\<close>




lemma demoRegistered_chain:
  "chain (nodes demoRegistered) (initHeadNode demoRegistered) [(1, 10), (2, 20)]"
  by (simp add: demoRegistered_def demoOnce_def demoStart_def)


lemma demoOneThread_fields:
  "nodes demoOneThread = nodes demoRegistered"
  "initHeadNode demoOneThread = initHeadNode demoRegistered"
  "runtimeState demoOneThread = (\<lambda>t. None)(0 \<mapsto> 100)"
  "globalRuntimeStatus demoOneThread = Global_kRunning"
  "aliveRuntimesCount demoOneThread = 1"
  by (simp_all add: demoOneThread_def onThreadExit_def log_def afterInit_def
      demoRegistered_def demoOnce_def demoStart_def demoEnv_def)


lemma demoTwoThreads_fields:
  "runtimeState demoTwoThreads = (\<lambda>t. None)(0 \<mapsto> 100, 1 \<mapsto> 101)"
  "globalRuntimeStatus demoTwoThreads = Global_kRunning"
  "aliveRuntimesCount demoTwoThreads = 2"
  by (simp_all add: demoTwoThreads_def onThreadExit_def log_def afterInit_def demoOneThread_fields
      demoEnv1_def)




lemma demoTwoThreads_destroy:
  "Kotlin_destroyRuntime demoConfig 0 demoTwoThreads = Aborts demoAborted"
  unfolding demoAborted_def
  using destroy_aborts[of demoConfig demoTwoThreads 0]
  by (simp add: demoTwoThreads_fields)

lemma demoOneThread_heap:
  "heap demoOneThread 100 = Some \<lparr>memoryState = Some 7, worker = Some 8, status = kRunning\<rparr>"
  by (simp add: demoOneThread_def onThreadExit_def log_def afterInit_def
      demoRegistered_def demoOnce_def demoStart_def demoEnv_def)

lemma demoRegistered_fields:
  "runtimeState demoRegistered = (\<lambda>t. None)"
  "globalRuntimeStatus demoRegistered = Global_kUninitialized"
  "trace demoRegistered = []"
  "exitCallbacks demoRegistered = (\<lambda>t. [])"
  by (simp_all add: demoRegistered_def demoOnce_def demoStart_def)

subsection \<open>The counter of alive runtimes\<close>



text \<open>The counter is the number of live instances, whatever block the allocator hands
  out.\<close>

lemma instanceInv_frame:
  "instanceInv s \<Longrightarrow> heap s' = heap s \<Longrightarrow> aliveRuntimesCount s' = aliveRuntimesCount s \<Longrightarrow>
   instanceInv s'"
  by (simp add: instanceInv_def)

lemma instanceInv_add:
  assumes "instanceInv s" and "heap s b = None" and "heap s' = (heap s)(b \<mapsto> rs)"
    and "aliveRuntimesCount s' = aliveRuntimesCount s + 1"
  shows "instanceInv s'"
proof -
  from assms(2) have "b \<notin> dom (heap s)" by (simp add: domIff)
  with assms(1,3,4) show ?thesis by (simp add: instanceInv_def)
qed

lemma instanceInv_remove:
  assumes "instanceInv s" and "heap s a = Some rs" and "heap s' = (heap s)(a := None)"
    and "aliveRuntimesCount s' = aliveRuntimesCount s - 1"
  shows "instanceInv s'"
proof -
  from assms(1) have fin: "finite (dom (heap s))"
    and cnt: "aliveRuntimesCount s = int (card (dom (heap s)))"
    by (simp_all add: instanceInv_def)
  from assms(2) have "a \<in> dom (heap s)" by (simp add: domIff)
  with fin have "card (dom (heap s)) = Suc (card (dom (heap s) - {a}))"
    by (rule card.remove)
  with fin cnt assms(3,4) show ?thesis by (simp add: instanceInv_def)
qed

lemma deinitRuntime_instanceInv:
  assumes "instanceInv s" and "deinitRuntime c p d s = Returns u s'"
  shows "instanceInv s'"
proof -
  from deinitRuntime_Returns[OF assms(2)] obtain a rs where
    "heap s a = Some rs" "heap s' = (heap s)(a := None)"
    "aliveRuntimesCount s' = aliveRuntimesCount s - 1"
    by auto
  from instanceInv_remove[OF assms(1) this] show ?thesis .
qed

lemma runExitCallbacks_instanceInv:
  "runExitCallbacks c ps s = Returns u s' \<Longrightarrow> instanceInv s \<Longrightarrow> instanceInv s'"
proof (induction ps arbitrary: s)
  case Nil
  then show ?case by simp
next
  case (Cons p ps)
  from Cons.prems(1) obtain v s1 where
    p: "deinitRuntime c p False s = Returns v s1" and r: "runExitCallbacks c ps s1 = Returns u s'"
    by (auto simp: bind_Returns_iff Kotlin_deinitRuntimeCallback_def)
  from Cons.IH[OF r deinitRuntime_instanceInv[OF Cons.prems(2) p]] show ?case .
qed

lemma instanceInv_step:
  assumes inv: "instanceInv s" and al: "allocates k s" and ex: "exec c k s = Returns u s'"
  shows "instanceInv s'"
proof (cases k)
  case (Register p)
  with ex have "heap s' = heap s \<and> aliveRuntimesCount s' = aliveRuntimesCount s"
    by (auto simp: AppendToInitializersTail_def split: if_splits option.splits)
  then show ?thesis by (intro instanceInv_frame[OF inv]) simp_all
next
  case (Init t e)
  with ex have "Kotlin_initRuntimeIfNeeded c t e s = Returns u s'" by simp
  from initIfNeeded_Returns[OF this] consider
      (same) "s' = s"
    | (nomem) "s' = onThreadExit t None (log SetKonanTerminateHandler s)"
    | (ok) xs where "allocOk e"
        "s' = onThreadExit t (Some (newInstance e)) (afterInit c t e xs s)"
    by fast
  then show ?thesis
  proof cases
    case same
    with inv show ?thesis by simp
  next
    case nomem
    show ?thesis
      by (rule instanceInv_frame[OF inv]) (simp_all add: nomem onThreadExit_def log_def)
  next
    case ok
    from al Init ok(1) have fresh: "heap s (newInstance e) = None" by simp
    show ?thesis
      by (rule instanceInv_add[OF inv fresh, where rs =
           "\<lparr>memoryState = newMemory e, worker = newWorker e, status = kRunning\<rparr>"])
         (simp_all add: ok(2) onThreadExit_def log_def afterInit_def)
  qed
next
  case (Deinit t)
  with ex have "Kotlin_deinitRuntimeIfNeeded c t s = Returns u s'" by simp
  from deinitIfNeeded_Returns[OF this] consider
      (same) "s' = s"
    | (down) a rs xs where "heap s a = Some rs"
        "s' = (afterDeinit False a rs xs s)\<lparr>runtimeState := (runtimeState s)(t := None)\<rparr>"
    by fast
  then show ?thesis
  proof cases
    case same
    with inv show ?thesis by simp
  next
    case down
    show ?thesis
      by (rule instanceInv_remove[OF inv down(1)]) (simp_all add: down(2) afterDeinit_def)
  qed
next
  case (Destroy t)
  with ex have "Kotlin_destroyRuntime c t s = Returns u s'" by simp
  from destroy_Returns[OF this] obtain a rs xs where
    d: "heap s a = Some rs"
       "s' = (afterDeinit True a rs xs (afterShutdown s))\<lparr>runtimeState := (runtimeState s)(t := None)\<rparr>"
    by blast
  show ?thesis
    by (rule instanceInv_remove[OF inv d(1)]) (simp_all add: d(2) afterDeinit_def afterShutdown_def)
next
  case (ZeroOutTLS t)
  with ex have "Kotlin_zeroOutTLSGlobals t s = Returns u s'" by simp
  from zeroOut_Returns[OF this] obtain evs where "s' = s\<lparr>trace := trace s @ evs\<rparr>" by blast
  then show ?thesis by (intro instanceInv_frame[OF inv]) simp_all
next
  case (ThreadExit t)
  with ex obtain v s1 where
    r: "runExitCallbacks c (exitCallbacks s t) s = Returns v s1"
    and s': "s' = s1\<lparr>runtimeState := (runtimeState s1)(t := None),
                      exitCallbacks := (exitCallbacks s1)(t := [])\<rparr>"
    by (auto simp: threadExit_def bind_Returns_iff kInvalidRuntime_def)
  from runExitCallbacks_instanceInv[OF r inv] have "instanceInv s1" .
  then show ?thesis by (rule instanceInv_frame) (simp_all add: s')
next
  case (SetMemoryLeakChecker v)
  with ex have "s' = s\<lparr>g_checkLeaks := v\<rparr>"
    by (simp add: Konan_Platform_setMemoryLeakChecker_def)
  then show ?thesis by (intro instanceInv_frame[OF inv]) simp_all
next
  case (SetCleanersLeakChecker v)
  with ex have "s' = s\<lparr>g_checkLeakedCleaners := v\<rparr>"
    by (simp add: Konan_Platform_setCleanersLeakChecker_def)
  then show ?thesis by (intro instanceInv_frame[OF inv]) simp_all
qed

lemma reachableWithReuse_instanceInv: "reachableWithReuse c s \<Longrightarrow> instanceInv s"
proof (induction rule: reachableWithReuse.induct)
  case (start s)
  then show ?case by (simp add: initial_def instanceInv_def)
next
  case (step s k s')
  from instanceInv_step[OF step.IH step.hyps(2,3)] show ?case .
qed











subsection \<open>Destruction while other threads hold a runtime\<close>

lemma demoOneThread_destroy:
  "Kotlin_destroyRuntime demoConfig 0 demoOneThread = Returns () demoDestroyed"
  unfolding demoDestroyed_def
proof (rule destroy_chain)
  show "chain (nodes demoOneThread) (initHeadNode demoOneThread) [(1, 10), (2, 20)]"
    using demoRegistered_chain by (simp only: demoOneThread_fields)
qed (simp_all add: demoOneThread_fields demoOneThread_heap)

lemma demoDestroyed_fields:
  "globalRuntimeStatus demoDestroyed = Global_kDestroyed"
  "runtimeState demoDestroyed = (\<lambda>t. None)"
  by (auto simp: demoDestroyed_def afterDeinit_def afterShutdown_def demoOneThread_fields)




subsection \<open>After the destruction\<close>

lemma runExitCallbacks_status:
  "runExitCallbacks c ps s = Returns u s' \<Longrightarrow> globalRuntimeStatus s' = globalRuntimeStatus s"
proof (induction ps arbitrary: s)
  case Nil
  then show ?case by simp
next
  case (Cons p ps)
  from Cons.prems obtain v s1 where
    p: "deinitRuntime c p False s = Returns v s1" and r: "runExitCallbacks c ps s1 = Returns u s'"
    by (auto simp: bind_Returns_iff Kotlin_deinitRuntimeCallback_def)
  from deinitRuntime_Returns[OF p] have "globalRuntimeStatus s1 = globalRuntimeStatus s"
    by auto
  with Cons.IH[OF r] show ?case by simp
qed

lemma destroyed_step:
  assumes "globalRuntimeStatus s = Global_kDestroyed" and "exec c k s = Returns u s'"
  shows "globalRuntimeStatus s' = Global_kDestroyed"
proof (cases k)
  case (Register p)
  with assms show ?thesis
    by (auto simp: AppendToInitializersTail_def split: if_splits option.splits)
next
  case (Init t e)
  with assms(2) have "Kotlin_initRuntimeIfNeeded c t e s = Returns u s'" by simp
  from initIfNeeded_Returns[OF this] assms(1) show ?thesis by auto
next
  case (Deinit t)
  with assms(2) have "Kotlin_deinitRuntimeIfNeeded c t s = Returns u s'" by simp
  from deinitIfNeeded_Returns[OF this] assms(1) show ?thesis
    by (auto simp: afterDeinit_def)
next
  case (Destroy t)
  with assms(2) have "Kotlin_destroyRuntime c t s = Returns u s'" by simp
  from destroy_Returns[OF this] show ?thesis
    by (auto simp: afterDeinit_def afterShutdown_def)
next
  case (ZeroOutTLS t)
  with assms(2) have "Kotlin_zeroOutTLSGlobals t s = Returns u s'" by simp
  from zeroOut_Returns[OF this] assms(1) show ?thesis by auto
next
  case (ThreadExit t)
  with assms(2) obtain v s1 where
    "runExitCallbacks c (exitCallbacks s t) s = Returns v s1"
    "globalRuntimeStatus s' = globalRuntimeStatus s1"
    by (auto simp: threadExit_def bind_Returns_iff)
  with runExitCallbacks_status[OF this(1)] assms(1) show ?thesis by simp
next
  case (SetMemoryLeakChecker v)
  with assms show ?thesis by (auto simp: Konan_Platform_setMemoryLeakChecker_def)
next
  case (SetCleanersLeakChecker v)
  with assms show ?thesis by (auto simp: Konan_Platform_setCleanersLeakChecker_def)
qed

lemma destroyed_reaches:
  "reaches c s s' \<Longrightarrow> globalRuntimeStatus s = Global_kDestroyed \<Longrightarrow>
   globalRuntimeStatus s' = Global_kDestroyed"
  by (induction rule: reaches.induct) (auto dest: destroyed_step)

lemma destroy_sets_destroyed:
  assumes "Kotlin_destroyRuntime c t s = Returns u s' \<or> Kotlin_destroyRuntime c t s = Aborts s'"
  shows "globalRuntimeStatus s' = Global_kDestroyed"
  using assms
proof
  assume "Kotlin_destroyRuntime c t s = Returns u s'"
  from destroy_Returns[OF this] show ?thesis by (auto simp: afterDeinit_def afterShutdown_def)
next
  assume "Kotlin_destroyRuntime c t s = Aborts s'"
  from destroy_Aborts[OF this] show ?thesis by (simp add: log_def afterShutdown_def)
qed

text \<open>A teardown leaves the global status alone, however it ends.\<close>

lemma keepsStatus_simps [simp]:
  "keepsStatus s (Returns v s') \<longleftrightarrow> globalRuntimeStatus s' = globalRuntimeStatus s"
  "keepsStatus s (Aborts s') \<longleftrightarrow> globalRuntimeStatus s' = globalRuntimeStatus s"
  "keepsStatus s (AssertFails m s') \<longleftrightarrow> globalRuntimeStatus s' = globalRuntimeStatus s"
  "keepsStatus s (Faults s') \<longleftrightarrow> globalRuntimeStatus s' = globalRuntimeStatus s"
  "keepsStatus s Hangs"
  by (simp_all add: keepsStatus_def)

lemma keepsStatus_cong:
  "globalRuntimeStatus s = globalRuntimeStatus s0 \<Longrightarrow> keepsStatus s r \<Longrightarrow> keepsStatus s0 r"
  by (cases r) simp_all

lemma keepsStatus_bind:
  assumes "keepsStatus s m" and "\<And>v s1. m = Returns v s1 \<Longrightarrow> keepsStatus s1 (k v s1)"
  shows "keepsStatus s (bind m k)"
proof (cases m)
  case (Returns v s1)
  with assms(1) have "globalRuntimeStatus s1 = globalRuntimeStatus s" by simp
  from keepsStatus_cong[OF this assms(2)[OF Returns]] Returns show ?thesis by simp
qed (use assms(1) in simp_all)

lemma keepsStatus_deref:
  assumes "globalRuntimeStatus s = globalRuntimeStatus s0" and "\<And>a rs. keepsStatus s0 (k a rs)"
  shows "keepsStatus s0 (deref p s k)"
  using assms by (simp add: deref_def split: option.splits)

lemma keepsStatus_RuntimeAssert:
  assumes "globalRuntimeStatus s = globalRuntimeStatus s0" and "keepsStatus s0 k"
  shows "keepsStatus s0 (RuntimeAssert c cond msg s k)"
  using assms by (simp add: RuntimeAssert_def)

lemma keepsStatus_InitOrDeinit:
  assumes "globalRuntimeStatus s = globalRuntimeStatus s0"
  shows "keepsStatus s0 (InitOrDeinitGlobalVariables initialize memory s)"
  using assms
  by (simp add: InitOrDeinitGlobalVariables_def split: option.splits sum.splits)

lemma keepsStatus_if:
  "(b \<Longrightarrow> keepsStatus s x) \<Longrightarrow> (\<not> b \<Longrightarrow> keepsStatus s y) \<Longrightarrow>
   keepsStatus s (if b then x else y)"
  by simp

lemma keepsStatus_deinitRuntime: "keepsStatus s (deinitRuntime c p d s)"
  unfolding deinitRuntime_def Let_def
  by (intro keepsStatus_deref keepsStatus_RuntimeAssert keepsStatus_bind keepsStatus_if
        keepsStatus_InitOrDeinit)
     (simp_all add: store_def konanDestructInstance_def log_def)

lemma destroy_AssertFails:
  "enableAsserts c \<Longrightarrow> globalRuntimeStatus s \<noteq> Global_kRunning \<Longrightarrow>
     Kotlin_destroyRuntime c t s = AssertFails ''Kotlin runtime must be running'' s"
  "enableAsserts c \<Longrightarrow> globalRuntimeStatus s = Global_kRunning \<Longrightarrow> runtimeState s t = None \<Longrightarrow>
     Kotlin_destroyRuntime c t s =
       AssertFails ''Current thread must have Kotlin runtime on it.'' s"
  by (simp_all add: destroy_unfold RuntimeAssert_def isValidRuntime_def kInvalidRuntime_def)

text \<open>Past its two entry assertions \<^verbatim>\<open>Kotlin_destroyRuntime\<close> ends, however it ends, in a
  state whose global status is \<^verbatim>\<open>kDestroyed\<close>.\<close>

lemma destroy_outcome_destroyed:
  assumes pre: "enableAsserts c \<longrightarrow> globalRuntimeStatus s = Global_kRunning \<and> runtimeState s t \<noteq> None"
    and o: "outcomeState (Kotlin_destroyRuntime c t s) = Some s1"
  shows "globalRuntimeStatus s1 = Global_kDestroyed"
proof -
  have d: "globalRuntimeStatus (afterShutdown s) = Global_kDestroyed"
    by (simp add: afterShutdown_def)
  have "keepsStatus (afterShutdown s)
          (bind (deinitRuntime c (runtimeState s t) True (afterShutdown s))
             (\<lambda>_ s4. Returns () (s4\<lparr>runtimeState := (runtimeState s4)(t := kInvalidRuntime)\<rparr>)))"
    by (intro keepsStatus_bind keepsStatus_deinitRuntime) simp
  then have "keepsStatus (afterShutdown s)
          (RuntimeAssert c (aliveRuntimesCount s - 1 \<ge> 0) ''Cannot be negative.'' (afterShutdown s)
             (if aliveRuntimesCount s - 1 > 0 then
                Aborts (log (ConsoleErrorf aliveThreadsMessage [aliveRuntimesCount s - 1])
                          (afterShutdown s))
              else
                bind (deinitRuntime c (runtimeState s t) True (afterShutdown s))
                  (\<lambda>_ s4. Returns () (s4\<lparr>runtimeState := (runtimeState s4)(t := kInvalidRuntime)\<rparr>))))"
    by (intro keepsStatus_RuntimeAssert keepsStatus_if) (simp_all add: log_def)
  moreover have "Kotlin_destroyRuntime c t s =
          RuntimeAssert c (aliveRuntimesCount s - 1 \<ge> 0) ''Cannot be negative.'' (afterShutdown s)
             (if aliveRuntimesCount s - 1 > 0 then
                Aborts (log (ConsoleErrorf aliveThreadsMessage [aliveRuntimesCount s - 1])
                          (afterShutdown s))
              else
                bind (deinitRuntime c (runtimeState s t) True (afterShutdown s))
                  (\<lambda>_ s4. Returns () (s4\<lparr>runtimeState := (runtimeState s4)(t := kInvalidRuntime)\<rparr>)))"
  proof (cases "enableAsserts c")
    case True
    with pre have "globalRuntimeStatus s = Global_kRunning" "isValidRuntime t s"
      by (simp_all add: isValidRuntime_def kInvalidRuntime_def)
    then show ?thesis
      by (subst destroy_unfold) (simp only: RuntimeAssert_def simp_thms if_False)
  next
    case False
    then show ?thesis
      by (subst destroy_unfold) (simp only: RuntimeAssert_def simp_thms if_False)
  qed
  ultimately have "keepsStatus (afterShutdown s) (Kotlin_destroyRuntime c t s)" by simp
  with o d show ?thesis by (simp add: keepsStatus_def)
qed

text \<open>
  Claim C3, as stated, fails for a call that aborts on one of its two entry assertions:
  these are evaluated before anything is stored, so the abort leaves the global status
  as it was. Called in \<open>demoRegistered\<close>, where no runtime has been created, the call
  aborts with the global status uninitialized; called by thread 1, which holds no
  runtime, in \<open>demoOneThread\<close>, it aborts with the global status running.
\<close>

theorem C3_failed_assertion_counterexample:
  "enableAsserts demoConfig \<and>
   Kotlin_destroyRuntime demoConfig 0 demoRegistered =
     AssertFails ''Kotlin runtime must be running'' demoRegistered \<and>
   globalRuntimeStatus demoRegistered = Global_kUninitialized \<and>
   Kotlin_destroyRuntime demoConfig 1 demoOneThread =
     AssertFails ''Current thread must have Kotlin runtime on it.'' demoOneThread \<and>
   globalRuntimeStatus demoOneThread = Global_kRunning"
proof -
  have e: "enableAsserts demoConfig" by (simp add: demoConfig_def)
  have "Kotlin_destroyRuntime demoConfig 0 demoRegistered =
          AssertFails ''Kotlin runtime must be running'' demoRegistered"
    by (rule destroy_AssertFails(1)[OF e]) (simp add: demoRegistered_fields)
  moreover have "Kotlin_destroyRuntime demoConfig 1 demoOneThread =
          AssertFails ''Current thread must have Kotlin runtime on it.'' demoOneThread"
    by (rule destroy_AssertFails(2)[OF e]) (simp_all add: demoOneThread_fields)
  ultimately show ?thesis
    using e by (simp add: demoRegistered_fields demoOneThread_fields)
qed

text \<open>
  Claim C3, amended. A call of \<^verbatim>\<open>Kotlin_destroyRuntime\<close> that fails one of its two entry
  assertions (the global status is running; the calling thread holds a runtime) aborts
  with the state, and so the global status, unchanged. A call that gets past them (as
  every call does in a build without assertions) leaves the global status
  \<^verbatim>\<open>kDestroyed\<close>, however it ends: when it returns, when it aborts because other
  threads hold a runtime, and when it ends in any other way. The status then stays
  \<^verbatim>\<open>kDestroyed\<close> in every state that later calls lead to, and there
  \<^verbatim>\<open>Kotlin_initRuntimeIfNeeded\<close>, on any thread without a runtime, aborts after its
  diagnostic, having created no runtime: the state at the abort differs from the state
  of the call in the diagnostic only.
\<close>

theorem C3_no_runtime_after_destroy:
  "(enableAsserts c \<and> globalRuntimeStatus s \<noteq> Global_kRunning \<longrightarrow>
      Kotlin_destroyRuntime c t s = AssertFails ''Kotlin runtime must be running'' s) \<and>
   (enableAsserts c \<and> globalRuntimeStatus s = Global_kRunning \<and> runtimeState s t = None \<longrightarrow>
      Kotlin_destroyRuntime c t s =
        AssertFails ''Current thread must have Kotlin runtime on it.'' s) \<and>
   ((enableAsserts c \<longrightarrow> globalRuntimeStatus s = Global_kRunning \<and> runtimeState s t \<noteq> None) \<and>
    outcomeState (Kotlin_destroyRuntime c t s) = Some s1 \<and>
    reaches c s1 s2 \<and> runtimeState s2 u = None \<longrightarrow>
      globalRuntimeStatus s1 = Global_kDestroyed \<and>
      globalRuntimeStatus s2 = Global_kDestroyed \<and>
      Kotlin_initRuntimeIfNeeded c u e s2 =
        Aborts (s2\<lparr>trace := trace s2 @ [ConsoleErrorf destroyedMessage []]\<rparr>)) \<and>
   ((Kotlin_destroyRuntime c t s = Returns () s1 \<or> Kotlin_destroyRuntime c t s = Aborts s1) \<and>
    reaches c s1 s2 \<and> runtimeState s2 u = None \<longrightarrow>
      globalRuntimeStatus s1 = Global_kDestroyed \<and>
      globalRuntimeStatus s2 = Global_kDestroyed \<and>
      Kotlin_initRuntimeIfNeeded c u e s2 =
        Aborts (s2\<lparr>trace := trace s2 @ [ConsoleErrorf destroyedMessage []]\<rparr>))"
proof (intro conjI impI)
  assume "enableAsserts c \<and> globalRuntimeStatus s \<noteq> Global_kRunning"
  then show "Kotlin_destroyRuntime c t s = AssertFails ''Kotlin runtime must be running'' s"
    by (simp add: destroy_AssertFails(1))
next
  assume "enableAsserts c \<and> globalRuntimeStatus s = Global_kRunning \<and> runtimeState s t = None"
  then show "Kotlin_destroyRuntime c t s =
        AssertFails ''Current thread must have Kotlin runtime on it.'' s"
    by (simp add: destroy_AssertFails(2))
next
  assume a: "(enableAsserts c \<longrightarrow> globalRuntimeStatus s = Global_kRunning \<and> runtimeState s t \<noteq> None) \<and>
    outcomeState (Kotlin_destroyRuntime c t s) = Some s1 \<and>
    reaches c s1 s2 \<and> runtimeState s2 u = None"
  then have pre: "enableAsserts c \<longrightarrow> globalRuntimeStatus s = Global_kRunning \<and> runtimeState s t \<noteq> None"
    and o: "outcomeState (Kotlin_destroyRuntime c t s) = Some s1"
    and r: "reaches c s1 s2" and n: "runtimeState s2 u = None"
    by blast+
  from destroy_outcome_destroyed[OF pre o]
  show 1: "globalRuntimeStatus s1 = Global_kDestroyed" .
  from destroyed_reaches[OF r 1] show 2: "globalRuntimeStatus s2 = Global_kDestroyed" .
  from initIfNeeded_destroyed[OF n 2]
  show "Kotlin_initRuntimeIfNeeded c u e s2 =
        Aborts (s2\<lparr>trace := trace s2 @ [ConsoleErrorf destroyedMessage []]\<rparr>)"
    by (simp add: log_def)
next
  assume a: "(Kotlin_destroyRuntime c t s = Returns () s1 \<or> Kotlin_destroyRuntime c t s = Aborts s1) \<and>
    reaches c s1 s2 \<and> runtimeState s2 u = None"
  then have d: "Kotlin_destroyRuntime c t s = Returns () s1 \<or> Kotlin_destroyRuntime c t s = Aborts s1"
    and r: "reaches c s1 s2" and n: "runtimeState s2 u = None"
    by blast+
  from destroy_sets_destroyed[OF d]
  show 1: "globalRuntimeStatus s1 = Global_kDestroyed" .
  from destroyed_reaches[OF r 1] show 2: "globalRuntimeStatus s2 = Global_kDestroyed" .
  from initIfNeeded_destroyed[OF n 2]
  show "Kotlin_initRuntimeIfNeeded c u e s2 =
        Aborts (s2\<lparr>trace := trace s2 @ [ConsoleErrorf destroyedMessage []]\<rparr>)"
    by (simp add: log_def)
qed

lemma demoDestroyed_SetLeak:
  "exec demoConfig (SetMemoryLeakChecker True) demoDestroyed =
     Returns () (demoDestroyed\<lparr>g_checkLeaks := True\<rparr>)"
  by (simp add: Konan_Platform_setMemoryLeakChecker_def)

theorem C3_no_runtime_after_destroy_witness:
  "Kotlin_destroyRuntime demoConfig 0 demoOneThread = Returns () demoDestroyed \<and>
   globalRuntimeStatus demoDestroyed = Global_kDestroyed \<and>
   Kotlin_initRuntimeIfNeeded demoConfig 0 demoEnv (demoDestroyed\<lparr>g_checkLeaks := True\<rparr>) =
     Aborts (demoDestroyed\<lparr>g_checkLeaks := True,
       trace := trace demoDestroyed @ [ConsoleErrorf destroyedMessage []]\<rparr>) \<and>
   Kotlin_destroyRuntime demoConfig 0 demoTwoThreads = Aborts demoAborted \<and>
   globalRuntimeStatus demoAborted = Global_kDestroyed \<and>
   Kotlin_initRuntimeIfNeeded demoConfig 5 demoEnv demoAborted =
     Aborts (demoAborted\<lparr>trace := trace demoAborted @ [ConsoleErrorf destroyedMessage []]\<rparr>) \<and>
   Kotlin_destroyRuntime demoConfig 1 demoOneThread =
     AssertFails ''Current thread must have Kotlin runtime on it.'' demoOneThread"
proof -
  note c3 = C3_no_runtime_after_destroy
  note third = c3[THEN conjunct2, THEN conjunct2, THEN conjunct1]
  have e: "enableAsserts demoConfig" by (simp add: demoConfig_def)
  have "reaches demoConfig demoDestroyed (demoDestroyed\<lparr>g_checkLeaks := True\<rparr>)"
    by (rule reaches.later[OF reaches.here demoDestroyed_SetLeak])
  then have "(enableAsserts demoConfig \<longrightarrow>
        globalRuntimeStatus demoOneThread = Global_kRunning \<and> runtimeState demoOneThread 0 \<noteq> None) \<and>
      outcomeState (Kotlin_destroyRuntime demoConfig 0 demoOneThread) = Some demoDestroyed \<and>
      reaches demoConfig demoDestroyed (demoDestroyed\<lparr>g_checkLeaks := True\<rparr>) \<and>
      runtimeState (demoDestroyed\<lparr>g_checkLeaks := True\<rparr>) 0 = None"
    by (simp add: demoOneThread_fields demoOneThread_destroy demoDestroyed_fields)
  from mp[OF third[of demoConfig demoOneThread 0 demoDestroyed
        "demoDestroyed\<lparr>g_checkLeaks := True\<rparr>" 0 demoEnv] this]
  have 1: "globalRuntimeStatus demoDestroyed = Global_kDestroyed"
    "Kotlin_initRuntimeIfNeeded demoConfig 0 demoEnv (demoDestroyed\<lparr>g_checkLeaks := True\<rparr>) =
     Aborts (demoDestroyed\<lparr>g_checkLeaks := True,
       trace := trace demoDestroyed @ [ConsoleErrorf destroyedMessage []]\<rparr>)"
    by simp_all
  have "(enableAsserts demoConfig \<longrightarrow>
        globalRuntimeStatus demoTwoThreads = Global_kRunning \<and> runtimeState demoTwoThreads 0 \<noteq> None) \<and>
      outcomeState (Kotlin_destroyRuntime demoConfig 0 demoTwoThreads) = Some demoAborted \<and>
      reaches demoConfig demoAborted demoAborted \<and>
      runtimeState demoAborted 5 = None"
    by (simp add: demoTwoThreads_fields demoTwoThreads_destroy reaches.here)
       (simp add: demoAborted_def log_def afterShutdown_def demoTwoThreads_fields)
  from mp[OF third[of demoConfig demoTwoThreads 0 demoAborted demoAborted 5 demoEnv] this]
  have 2: "globalRuntimeStatus demoAborted = Global_kDestroyed"
    "Kotlin_initRuntimeIfNeeded demoConfig 5 demoEnv demoAborted =
     Aborts (demoAborted\<lparr>trace := trace demoAborted @ [ConsoleErrorf destroyedMessage []]\<rparr>)"
    by simp_all
  have "enableAsserts demoConfig \<and> globalRuntimeStatus demoOneThread = Global_kRunning \<and>
      runtimeState demoOneThread 1 = None"
    by (simp add: e demoOneThread_fields)
  from mp[OF c3[of demoConfig demoOneThread 1, THEN conjunct2, THEN conjunct1] this]
  have 3: "Kotlin_destroyRuntime demoConfig 1 demoOneThread =
     AssertFails ''Current thread must have Kotlin runtime on it.'' demoOneThread" .
  from 1 2 3 show ?thesis by (simp add: demoOneThread_destroy demoTwoThreads_destroy)
qed

subsection \<open>Counting phases in a trace\<close>

lemma phaseRuns_append [simp]: "phaseRuns ph (a @ b) = phaseRuns ph a + phaseRuns ph b"
  by (simp add: phaseRuns_def)

lemma phaseRuns_Nil [simp]: "phaseRuns ph [] = 0"
  by (simp add: phaseRuns_def)

lemma phaseRuns_Cons:
  "phaseRuns ph (e # tr) = (if isRunPhase ph e then 1 else 0) + phaseRuns ph tr"
  by (simp add: phaseRuns_def)

lemma phaseRuns_invokes [simp]:
  "phaseRuns ph (map (\<lambda>x. Invoke (snd x) initialize memory) xs) = 0"
  by (induction xs) (simp_all add: phaseRuns_Cons)

lemma phaseRuns_phaseEvents [simp]:
  "phaseRuns ph (phaseEvents ph' m xs) = (if ph' = ph then 1 else 0)"
  by (simp add: phaseEvents_def phaseRuns_Cons)

lemma phases_distinct [simp]:
  "INIT_GLOBALS \<noteq> INIT_THREAD_LOCAL_GLOBALS" "INIT_GLOBALS \<noteq> DEINIT_THREAD_LOCAL_GLOBALS"
  "INIT_GLOBALS \<noteq> DEINIT_GLOBALS" "INIT_THREAD_LOCAL_GLOBALS \<noteq> INIT_GLOBALS"
  "INIT_THREAD_LOCAL_GLOBALS \<noteq> DEINIT_THREAD_LOCAL_GLOBALS"
  "INIT_THREAD_LOCAL_GLOBALS \<noteq> DEINIT_GLOBALS" "DEINIT_THREAD_LOCAL_GLOBALS \<noteq> INIT_GLOBALS"
  "DEINIT_THREAD_LOCAL_GLOBALS \<noteq> INIT_THREAD_LOCAL_GLOBALS"
  "DEINIT_THREAD_LOCAL_GLOBALS \<noteq> DEINIT_GLOBALS" "DEINIT_GLOBALS \<noteq> INIT_GLOBALS"
  "DEINIT_GLOBALS \<noteq> INIT_THREAD_LOCAL_GLOBALS" "DEINIT_GLOBALS \<noteq> DEINIT_THREAD_LOCAL_GLOBALS"
  by (simp_all add: INIT_GLOBALS_def INIT_THREAD_LOCAL_GLOBALS_def
      DEINIT_THREAD_LOCAL_GLOBALS_def DEINIT_GLOBALS_def)

lemma phaseRuns_initEvents:
  "phaseRuns INIT_GLOBALS (initEvents c first m xs) = (if first then 1 else 0)"
  "phaseRuns DEINIT_GLOBALS (initEvents c first m xs) = 0"
  by (simp_all add: initEvents_def phaseRuns_Cons)

lemma phaseRuns_deinitEvents:
  "phaseRuns INIT_GLOBALS (deinitEvents d rs xs) = 0"
  "phaseRuns DEINIT_GLOBALS (deinitEvents d rs xs) = (if d then 1 else 0)"
  by (simp_all add: deinitEvents_def phaseRuns_Cons)

lemma phaseRuns_shutdownEvents [simp]: "phaseRuns ph (shutdownEvents s) = 0"
  by (simp add: shutdownEvents_def phaseRuns_Cons)

lemma firstRuntimeCalls_append [simp]:
  "firstRuntimeCalls (a @ b) = firstRuntimeCalls a + firstRuntimeCalls b"
  by (simp add: firstRuntimeCalls_def)

lemma firstRuntimeCalls_Nil [simp]: "firstRuntimeCalls [] = 0"
  by (simp add: firstRuntimeCalls_def)

lemma firstRuntimeCalls_Cons:
  "firstRuntimeCalls (e # tr) = (if e = InitMemory True then 1 else 0) + firstRuntimeCalls tr"
  by (simp add: firstRuntimeCalls_def)

lemma firstRuntimeCalls_invokes [simp]:
  "firstRuntimeCalls (map (\<lambda>x. Invoke (snd x) initialize memory) xs) = 0"
  by (induction xs) (simp_all add: firstRuntimeCalls_Cons)

lemma firstRuntimeCalls_phaseEvents [simp]: "firstRuntimeCalls (phaseEvents ph m xs) = 0"
  by (simp add: phaseEvents_def firstRuntimeCalls_Cons)

lemma firstRuntimeCalls_initEvents:
  "firstRuntimeCalls (initEvents c first m xs) = (if first then 1 else 0)"
  by (simp add: initEvents_def firstRuntimeCalls_Cons)

lemma firstRuntimeCalls_deinitEvents [simp]: "firstRuntimeCalls (deinitEvents d rs xs) = 0"
  by (simp add: deinitEvents_def firstRuntimeCalls_Cons)

lemma firstRuntimeCalls_shutdownEvents [simp]: "firstRuntimeCalls (shutdownEvents s) = 0"
  by (simp add: shutdownEvents_def firstRuntimeCalls_Cons)

subsection \<open>Calls that do not return\<close>

lemma quietly_refl [simp]: "quietly n s s"
  by (simp add: quietly_def)

lemma quietly_trans:
  "quietly n s s1 \<Longrightarrow> quietly k s1 s2 \<Longrightarrow> quietly (n + k) s s2"
  unfolding quietly_def
proof (elim exE conjE)
  fix evs evs'
  assume "trace s1 = trace s @ evs" "phaseRuns DEINIT_GLOBALS evs \<le> n"
    "trace s2 = trace s1 @ evs'" "phaseRuns DEINIT_GLOBALS evs' \<le> k"
  then have "trace s2 = trace s @ (evs @ evs') \<and> phaseRuns DEINIT_GLOBALS (evs @ evs') \<le> n + k"
    by simp
  then show "\<exists>evs. trace s2 = trace s @ evs \<and> phaseRuns DEINIT_GLOBALS evs \<le> n + k" by blast
qed

lemma quietlyI:
  "trace s' = trace s @ evs \<Longrightarrow> phaseRuns DEINIT_GLOBALS evs \<le> n \<Longrightarrow> quietly n s s'"
  unfolding quietly_def by blast

lemma quietly_log [simp]:
  "\<not> isRunPhase DEINIT_GLOBALS e \<Longrightarrow> quietly n s s1 \<Longrightarrow> quietly n s (log e s1)"
  using quietly_trans[of n s s1 0 "log e s1"]
  by (simp add: quietly_def log_def phaseRuns_Cons)

lemma quietly_fields [simp]:
  "quietly n s (s1\<lparr>heap := h\<rparr>) = quietly n s s1"
  "quietly n s (s1\<lparr>aliveRuntimesCount := k\<rparr>) = quietly n s s1"
  "quietly n s (s1\<lparr>runtimeState := r\<rparr>) = quietly n s s1"
  "quietly n s (s1\<lparr>globalRuntimeStatus := g\<rparr>) = quietly n s s1"
  "quietly n s (s1\<lparr>exitCallbacks := cb\<rparr>) = quietly n s s1"
  "quietly n s (s1\<lparr>nodes := ns\<rparr>) = quietly n s s1"
  "quietly n s (s1\<lparr>initHeadNode := p\<rparr>) = quietly n s s1"
  "quietly n s (s1\<lparr>initTailNode := p\<rparr>) = quietly n s s1"
  "quietly n s (s1\<lparr>g_checkLeaks := b\<rparr>) = quietly n s s1"
  "quietly n s (s1\<lparr>g_checkLeakedCleaners := b\<rparr>) = quietly n s s1"
  by (simp_all add: quietly_def)

lemma quiet_simps [simp]:
  "quiet n s (Returns v s') = quietly n s s'"
  "quiet n s (Aborts s') = quietly n s s'"
  "quiet n s (AssertFails m s') = quietly n s s'"
  "quiet n s (Faults s') = quietly n s s'"
  "quiet n s Hangs"
  by (simp_all add: quiet_def)

lemma quiet_weaken:
  "quietly 0 s s1 \<Longrightarrow> quiet n s1 r \<Longrightarrow> quiet n s r"
  using quietly_trans[of 0 s s1 n] by (cases r) auto

lemma quiet_bind:
  assumes "quiet 0 s m" and "\<And>v s1. m = Returns v s1 \<Longrightarrow> quiet n s1 (k v s1)"
  shows "quiet n s (bind m k)"
proof (cases m)
  case (Returns v s1)
  with assms(1) have "quietly 0 s s1" by simp
  from quiet_weaken[OF this assms(2)[OF Returns]] Returns show ?thesis by simp
next
  case (Aborts s1)
  with assms(1) have "quietly 0 s s1" by simp
  then have "quietly n s s1" by (auto simp: quietly_def)
  with Aborts show ?thesis by simp
next
  case (AssertFails x s1)
  with assms(1) have "quietly 0 s s1" by simp
  then have "quietly n s s1" by (auto simp: quietly_def)
  with AssertFails show ?thesis by simp
next
  case (Faults s1)
  with assms(1) have "quietly 0 s s1" by simp
  then have "quietly n s s1" by (auto simp: quietly_def)
  with Faults show ?thesis by simp
next
  case Hangs
  then show ?thesis by simp
qed

lemma quiet_deref:
  assumes "quietly n s0 s" and "\<And>a rs. quiet n s0 (k a rs)"
  shows "quiet n s0 (deref p s k)"
  using assms by (simp add: deref_def split: option.splits)

lemma quiet_RuntimeAssert:
  assumes "quietly n s0 s" and "quiet n s0 k"
  shows "quiet n s0 (RuntimeAssert c cond msg s k)"
  using assms by (simp add: RuntimeAssert_def)


lemma traverse_result:
  assumes "traverse ns initialize memory p tr = Some r"
  shows "\<exists>evs. (case r of Inl x \<Rightarrow> x | Inr x \<Rightarrow> x) = tr @ evs \<and> (\<forall>ph. phaseRuns ph evs = 0)"
  using assms
proof (rule traverse.raw_induct[rotated, where P = "\<lambda>ns i m p tr r.
          \<exists>evs. (case r of Inl x \<Rightarrow> x | Inr x \<Rightarrow> x) = tr @ evs \<and> (\<forall>ph. phaseRuns ph evs = 0)"])
  fix trav ns i m cur tr0 r0
  assume IH: "\<And>ns i m p tr r. trav ns i m p tr = Some r \<Longrightarrow>
          \<exists>evs. (case r of Inl x \<Rightarrow> x | Inr x \<Rightarrow> x) = tr @ evs \<and> (\<forall>ph. phaseRuns ph evs = 0)"
    and body: "(case cur of None \<Rightarrow> Some (Inr tr0)
         | Some a \<Rightarrow> (case ns a of None \<Rightarrow> Some (Inl tr0)
             | Some n \<Rightarrow> trav ns i m (next n) (tr0 @ [Invoke (init n) i m]))) = Some r0"
  show "\<exists>evs. (case r0 of Inl x \<Rightarrow> x | Inr x \<Rightarrow> x) = tr0 @ evs \<and> (\<forall>ph. phaseRuns ph evs = 0)"
  proof (cases cur)
    case None
    with body have "(case r0 of Inl x \<Rightarrow> x | Inr x \<Rightarrow> x) = tr0 @ []" by auto
    then show ?thesis by (intro exI[of _ "[]"]) simp
  next
    case (Some a)
    show ?thesis
    proof (cases "ns a")
      case None
      with body Some have "(case r0 of Inl x \<Rightarrow> x | Inr x \<Rightarrow> x) = tr0 @ []" by auto
      then show ?thesis by (intro exI[of _ "[]"]) simp
    next
      case (Some n)
      with body \<open>cur = Some a\<close>
      have "trav ns i m (next n) (tr0 @ [Invoke (init n) i m]) = Some r0" by simp
      from IH[OF this] obtain evs where
        "(case r0 of Inl x \<Rightarrow> x | Inr x \<Rightarrow> x) = (tr0 @ [Invoke (init n) i m]) @ evs"
        "\<forall>ph. phaseRuns ph evs = 0"
        by blast
      then show ?thesis
        by (intro exI[of _ "Invoke (init n) i m # evs"]) (simp add: phaseRuns_Cons)
    qed
  qed
qed

lemma quiet_InitOrDeinit:
  "quiet (if initialize = DEINIT_GLOBALS then 1 else 0) s
     (InitOrDeinitGlobalVariables initialize memory s)"
proof (cases "traverse (nodes s) initialize memory (initHeadNode s)
                (trace s @ [RunPhase initialize memory])")
  case None
  then show ?thesis by (simp add: InitOrDeinitGlobalVariables_def)
next
  case (Some r)
  from traverse_result[OF Some] obtain evs where
    evs: "(case r of Inl x \<Rightarrow> x | Inr x \<Rightarrow> x) = (trace s @ [RunPhase initialize memory]) @ evs"
    "\<forall>ph. phaseRuns ph evs = 0"
    by blast
  have "quietly (if initialize = DEINIT_GLOBALS then 1 else 0) s
          (s\<lparr>trace := case r of Inl x \<Rightarrow> x | Inr x \<Rightarrow> x\<rparr>)"
    by (rule quietlyI[where evs = "RunPhase initialize memory # evs"])
       (use evs in \<open>simp_all add: phaseRuns_Cons\<close>)
  with Some show ?thesis
    by (cases r) (simp_all add: InitOrDeinitGlobalVariables_def)
qed

lemma quiet_InitOrDeinit_at:
  assumes "quietly 0 s0 s" and "initialize \<noteq> DEINIT_GLOBALS"
  shows "quiet 0 s0 (InitOrDeinitGlobalVariables initialize memory s)"
  using quiet_weaken[OF assms(1) quiet_InitOrDeinit[of initialize s memory]] assms(2) by simp




lemma quiet_deinitRuntime_False: "quiet 0 s (deinitRuntime c p False s)"
  unfolding deinitRuntime_def Let_def
  by (intro quiet_deref quiet_RuntimeAssert quiet_bind quiet_InitOrDeinit_at)
     (simp_all add: store_def konanDestructInstance_def)




lemma quiet_deinitCallback: "quiet 0 s (Kotlin_deinitRuntimeCallback c p s)"
  unfolding Kotlin_deinitRuntimeCallback_def by (rule quiet_deinitRuntime_False)


lemma quiet_runExitCallbacks: "quiet 0 s (runExitCallbacks c ps s)"
proof (induction ps arbitrary: s)
  case Nil
  show ?case by simp
next
  case (Cons p ps)
  show ?case
    unfolding runExitCallbacks.simps
    by (intro quiet_bind quiet_deinitCallback Cons.IH)
qed








lemma quiet_0_trace:
  assumes "quiet 0 s r" and "outcomeState r = Some s'"
  shows "phaseRuns DEINIT_GLOBALS (trace s') = phaseRuns DEINIT_GLOBALS (trace s)"
  using assms by (auto simp: quiet_def quietly_def)


subsection \<open>The destruction happens once\<close>

lemma shutdownInvI:
  assumes "heap s \<noteq> Map.empty \<Longrightarrow> globalRuntimeStatus s = Global_kRunning"
    and "phaseRuns DEINIT_GLOBALS (trace s) =
           (if globalRuntimeStatus s = Global_kDestroyed then 1 else 0)"
  shows "shutdownInv s"
  using assms by (simp add: shutdownInv_def)

lemma shutdownInv_frame:
  assumes "shutdownInv s" and "heap s' = heap s"
    and "globalRuntimeStatus s' = globalRuntimeStatus s"
    and "phaseRuns DEINIT_GLOBALS (trace s') = phaseRuns DEINIT_GLOBALS (trace s)"
  shows "shutdownInv s'"
  using assms by (simp add: shutdownInv_def)

lemma shutdownInv_running:
  assumes "shutdownInv s" and "heap s a = Some rs"
  shows "globalRuntimeStatus s = Global_kRunning"
    and "phaseRuns DEINIT_GLOBALS (trace s) = 0"
proof -
  from assms(2) have "heap s \<noteq> Map.empty" by auto
  with assms(1) show r: "globalRuntimeStatus s = Global_kRunning" by (simp add: shutdownInv_def)
  with assms(1) show "phaseRuns DEINIT_GLOBALS (trace s) = 0" by (simp add: shutdownInv_def)
qed

lemma runExitCallbacks_live:
  assumes "runExitCallbacks c ps s = Returns u s'"
  shows "s' = s \<or> (\<exists>a rs. heap s a = Some rs)"
proof (cases ps)
  case Nil
  with assms show ?thesis by simp
next
  case (Cons p rest)
  with assms obtain v s1 where "deinitRuntime c p False s = Returns v s1"
    by (auto simp: bind_Returns_iff Kotlin_deinitRuntimeCallback_def)
  from deinitRuntime_Returns[OF this] show ?thesis by blast
qed

lemma shutdownInv_step:
  assumes inv: "shutdownInv s" and ii: "instanceInv s" and ex: "exec c k s = Returns u s'"
  shows "shutdownInv s'"
proof (cases k)
  case (Register p)
  with ex have "heap s' = heap s \<and> globalRuntimeStatus s' = globalRuntimeStatus s \<and>
      trace s' = trace s"
    by (auto simp: AppendToInitializersTail_def split: if_splits option.splits)
  then show ?thesis by (intro shutdownInv_frame[OF inv]) simp_all
next
  case (Init t e)
  with ex have "Kotlin_initRuntimeIfNeeded c t e s = Returns u s'" by simp
  from initIfNeeded_Returns[OF this] consider
      (same) "s' = s"
    | (nomem) "s' = onThreadExit t None (log SetKonanTerminateHandler s)"
    | (ok) xs where "globalRuntimeStatus s \<noteq> Global_kDestroyed"
        "s' = onThreadExit t (Some (newInstance e)) (afterInit c t e xs s)"
    by fast
  then show ?thesis
  proof cases
    case same
    with inv show ?thesis by simp
  next
    case nomem
    show ?thesis
      by (rule shutdownInv_frame[OF inv])
         (simp_all add: nomem onThreadExit_def log_def phaseRuns_Cons)
  next
    case ok
    from inv ok(1) have "phaseRuns DEINIT_GLOBALS (trace s) = 0" by (simp add: shutdownInv_def)
    then show ?thesis
      by (intro shutdownInvI)
         (simp_all add: ok(2) onThreadExit_def log_def afterInit_def phaseRuns_initEvents
            phaseRuns_Cons)
  qed
next
  case (Deinit t)
  with ex have "Kotlin_deinitRuntimeIfNeeded c t s = Returns u s'" by simp
  from deinitIfNeeded_Returns[OF this] consider
      (same) "s' = s"
    | (down) a rs xs where "heap s a = Some rs"
        "s' = (afterDeinit False a rs xs s)\<lparr>runtimeState := (runtimeState s)(t := None)\<rparr>"
    by fast
  then show ?thesis
  proof cases
    case same
    with inv show ?thesis by simp
  next
    case down
    from shutdownInv_running[OF inv down(1)] show ?thesis
      by (intro shutdownInvI) (simp_all add: down(2) afterDeinit_def phaseRuns_deinitEvents)
  qed
next
  case (Destroy t)
  with ex have "Kotlin_destroyRuntime c t s = Returns u s'" by simp
  from destroy_Returns[OF this] obtain a rs xs where
    d: "heap s a = Some rs" "aliveRuntimesCount s - 1 \<le> 0"
       "s' = (afterDeinit True a rs xs (afterShutdown s))\<lparr>runtimeState := (runtimeState s)(t := None)\<rparr>"
    by blast
  from ii have fin: "finite (dom (heap s))"
    and cnt: "aliveRuntimesCount s = int (card (dom (heap s)))"
    by (simp_all add: instanceInv_def)
  from d(1) have "a \<in> dom (heap s)" by (simp add: domIff)
  with fin have "card (dom (heap s)) = Suc (card (dom (heap s) - {a}))" by (rule card.remove)
  with cnt d(2) fin have "dom (heap s) - {a} = {}" by simp
  then have "dom ((heap s)(a := None)) = {}" by simp
  then have empty: "(heap s)(a := None) = Map.empty" by (simp only: dom_eq_empty_conv)
  from shutdownInv_running(2)[OF inv d(1)] empty show ?thesis
    by (intro shutdownInvI)
       (simp_all add: d(3) afterDeinit_def afterShutdown_def phaseRuns_deinitEvents)
next
  case (ZeroOutTLS t)
  with ex have "Kotlin_zeroOutTLSGlobals t s = Returns u s'" by simp
  from zeroOut_Returns[OF this] obtain evs where
    "s' = s\<lparr>trace := trace s @ evs\<rparr>"
    "evs = [] \<or> (\<exists>m xs. evs = phaseEvents DEINIT_THREAD_LOCAL_GLOBALS m xs)"
    by blast
  then show ?thesis by (intro shutdownInv_frame[OF inv]) auto
next
  case (ThreadExit t)
  with ex obtain v s1 where
    r: "runExitCallbacks c (exitCallbacks s t) s = Returns v s1"
    and s': "s' = s1\<lparr>runtimeState := (runtimeState s1)(t := None),
                      exitCallbacks := (exitCallbacks s1)(t := [])\<rparr>"
    by (auto simp: threadExit_def bind_Returns_iff kInvalidRuntime_def)
  note st = runExitCallbacks_status[OF r]
  from quiet_0_trace[OF quiet_runExitCallbacks, of c "exitCallbacks s t" s s1] r
  have tr: "phaseRuns DEINIT_GLOBALS (trace s1) = phaseRuns DEINIT_GLOBALS (trace s)" by simp
  from runExitCallbacks_live[OF r] show ?thesis
  proof
    assume "s1 = s"
    with inv show ?thesis by (intro shutdownInv_frame[OF inv]) (simp_all add: s')
  next
    assume "\<exists>a rs. heap s a = Some rs"
    then obtain a rs where "heap s a = Some rs" by blast
    from shutdownInv_running[OF inv this] st tr show ?thesis
      by (intro shutdownInvI) (simp_all add: s')
  qed
next
  case (SetMemoryLeakChecker v)
  with ex have "s' = s\<lparr>g_checkLeaks := v\<rparr>"
    by (simp add: Konan_Platform_setMemoryLeakChecker_def)
  then show ?thesis by (intro shutdownInv_frame[OF inv]) simp_all
next
  case (SetCleanersLeakChecker v)
  with ex have "s' = s\<lparr>g_checkLeakedCleaners := v\<rparr>"
    by (simp add: Konan_Platform_setCleanersLeakChecker_def)
  then show ?thesis by (intro shutdownInv_frame[OF inv]) simp_all
qed

lemma reachableWithReuse_shutdownInv: "reachableWithReuse c s \<Longrightarrow> shutdownInv s"
proof (induction rule: reachableWithReuse.induct)
  case (start s)
  then show ?case by (simp add: initial_def shutdownInv_def)
next
  case (step s k s')
  from shutdownInv_step[OF step.IH reachableWithReuse_instanceInv[OF step.hyps(1)] step.hyps(3)]
  show ?case .
qed

text \<open>With any allocator, \<^verbatim>\<open>Kotlin_destroyRuntime\<close> aborts when an instance other than
  the one of the calling thread is live; the diagnostic reports the number of the other
  live instances.\<close>

lemma destroy_with_other_instances:
  assumes r: "reachableWithReuse c s" and a: "runtimeState s t = Some a" "heap s a = Some rs"
    and b: "heap s b = Some rs'" "b \<noteq> a"
  shows "Kotlin_destroyRuntime c t s =
           Aborts (log (ConsoleErrorf aliveThreadsMessage [int (card (dom (heap s) - {a}))])
                     (afterShutdown s)) \<and>
         0 < card (dom (heap s) - {a})"
proof -
  from reachableWithReuse_instanceInv[OF r] have fin: "finite (dom (heap s))"
    and cnt: "aliveRuntimesCount s = int (card (dom (heap s)))"
    by (simp_all add: instanceInv_def)
  from a(2) have "a \<in> dom (heap s)" by (simp add: domIff)
  with fin have "card (dom (heap s)) = Suc (card (dom (heap s) - {a}))" by (rule card.remove)
  with cnt have other: "aliveRuntimesCount s - 1 = int (card (dom (heap s) - {a}))" by simp
  from b have "b \<in> dom (heap s) - {a}" by (simp add: domIff)
  with fin have pos: "0 < card (dom (heap s) - {a})" by (auto simp: card_gt_0_iff)
  from shutdownInv_running(1)[OF reachableWithReuse_shutdownInv[OF r] a(2)] a(1)
  have pre: "enableAsserts c \<longrightarrow> globalRuntimeStatus s = Global_kRunning \<and> runtimeState s t \<noteq> None"
    by simp
  from pos other have "0 < aliveRuntimesCount s - 1" by simp
  from destroy_aborts[OF pre this] other pos show ?thesis by simp
qed


subsection \<open>The global deinitialization phase\<close>




lemma demoOneThread_registry: "registry demoOneThread [(1, 10), (2, 20)]"
  using demoRegistered_chain
  by (simp add: registry_def demoOneThread_fields)
     (simp add: demoOneThread_def onThreadExit_def log_def afterInit_def demoRegistered_def)


subsection \<open>One initialization\<close>

text \<open>
  Claim C5: an initialization that succeeds (\<^verbatim>\<open>initRuntime\<close> returns a non-null
  pointer) has run the \<^verbatim>\<open>INIT_THREAD_LOCAL_GLOBALS\<close> phase with the memory state of the
  new runtime; it has run the \<^verbatim>\<open>INIT_GLOBALS\<close> phase, before that phase, exactly when
  \<^verbatim>\<open>firstRuntime\<close> is true (the value passed to \<^verbatim>\<open>InitMemory\<close>: whether this call
  moved the global status from uninitialized to running); and the status of the new
  \<^verbatim>\<open>RuntimeState\<close> is running afterwards. Conversely the initialization succeeds
  whenever the allocation succeeds, the thread has no runtime, the global status is not
  destroyed and the registry is well formed.
\<close>

theorem C5_init_phases:
  "(initRuntime c t e s = Returns (Some a) s' \<longrightarrow>
      (\<exists>xs. chain (nodes s) (initHeadNode s) xs \<and>
         trace s' = trace s @
           [SetKonanTerminateHandler,
            InitMemory (globalRuntimeStatus s = Global_kUninitialized), WorkerInit True] @
           (if globalRuntimeStatus s = Global_kUninitialized then
              ConsoleInit # (if KONAN_OBJC_INTEROP c then [ObjCExport_initialize] else []) @
              RunPhase INIT_GLOBALS (newMemory e) #
              map (\<lambda>x. Invoke (snd x) INIT_GLOBALS (newMemory e)) xs
            else []) @
           RunPhase INIT_THREAD_LOCAL_GLOBALS (newMemory e) #
           map (\<lambda>x. Invoke (snd x) INIT_THREAD_LOCAL_GLOBALS (newMemory e)) xs) \<and>
      runtimeState s' t = Some a \<and>
      heap s' a = Some \<lparr>memoryState = newMemory e, worker = newWorker e, status = kRunning\<rparr> \<and>
      globalRuntimeStatus s' = Global_kRunning) \<and>
   (allocOk e \<and> runtimeState s t = None \<and> globalRuntimeStatus s \<noteq> Global_kDestroyed \<and>
      registry s ys \<longrightarrow>
      (\<exists>s''. initRuntime c t e s = Returns (Some (newInstance e)) s''))"
proof (intro conjI impI)
  assume r: "initRuntime c t e s = Returns (Some a) s'"
  from initRuntime_Returns[OF r] obtain xs where
    a: "a = newInstance e" and xs: "chain (nodes s) (initHeadNode s) xs"
    and s': "s' = afterInit c t e xs s"
    by auto
  have "trace s' = trace s @
           [SetKonanTerminateHandler,
            InitMemory (globalRuntimeStatus s = Global_kUninitialized), WorkerInit True] @
           (if globalRuntimeStatus s = Global_kUninitialized then
              ConsoleInit # (if KONAN_OBJC_INTEROP c then [ObjCExport_initialize] else []) @
              RunPhase INIT_GLOBALS (newMemory e) #
              map (\<lambda>x. Invoke (snd x) INIT_GLOBALS (newMemory e)) xs
            else []) @
           RunPhase INIT_THREAD_LOCAL_GLOBALS (newMemory e) #
           map (\<lambda>x. Invoke (snd x) INIT_THREAD_LOCAL_GLOBALS (newMemory e)) xs"
    by (simp add: s' afterInit_def initEvents_def phaseEvents_def)
  with xs show "\<exists>xs. chain (nodes s) (initHeadNode s) xs \<and>
         trace s' = trace s @
           [SetKonanTerminateHandler,
            InitMemory (globalRuntimeStatus s = Global_kUninitialized), WorkerInit True] @
           (if globalRuntimeStatus s = Global_kUninitialized then
              ConsoleInit # (if KONAN_OBJC_INTEROP c then [ObjCExport_initialize] else []) @
              RunPhase INIT_GLOBALS (newMemory e) #
              map (\<lambda>x. Invoke (snd x) INIT_GLOBALS (newMemory e)) xs
            else []) @
           RunPhase INIT_THREAD_LOCAL_GLOBALS (newMemory e) #
           map (\<lambda>x. Invoke (snd x) INIT_THREAD_LOCAL_GLOBALS (newMemory e)) xs"
    by blast
  show "runtimeState s' t = Some a" by (simp add: s' a afterInit_def)
  show "heap s' a = Some \<lparr>memoryState = newMemory e, worker = newWorker e, status = kRunning\<rparr>"
    by (simp add: s' a afterInit_def)
  show "globalRuntimeStatus s' = Global_kRunning" by (simp add: s' afterInit_def)
next
  assume "allocOk e \<and> runtimeState s t = None \<and> globalRuntimeStatus s \<noteq> Global_kDestroyed \<and>
      registry s ys"
  then have h: "allocOk e" "runtimeState s t = None" "globalRuntimeStatus s \<noteq> Global_kDestroyed"
    "chain (nodes s) (initHeadNode s) ys"
    by (auto simp: registry_def)
  from initRuntime_chain[OF h, of c]
  show "\<exists>s''. initRuntime c t e s = Returns (Some (newInstance e)) s''" by blast
qed

lemma demoRegistered_registry: "registry demoRegistered [(1, 10), (2, 20)]"
  using demoRegistered_chain by (simp add: registry_def) (simp add: demoRegistered_def)

theorem C5_init_phases_witness:
  "\<exists>s'. initRuntime demoConfig 0 demoEnv demoRegistered = Returns (Some 100) s' \<and>
      trace s' =
        [SetKonanTerminateHandler, InitMemory True, WorkerInit True, ConsoleInit,
         RunPhase INIT_GLOBALS (Some 7), Invoke 10 INIT_GLOBALS (Some 7),
         Invoke 20 INIT_GLOBALS (Some 7),
         RunPhase INIT_THREAD_LOCAL_GLOBALS (Some 7),
         Invoke 10 INIT_THREAD_LOCAL_GLOBALS (Some 7),
         Invoke 20 INIT_THREAD_LOCAL_GLOBALS (Some 7)] \<and>
      heap s' 100 = Some \<lparr>memoryState = Some 7, worker = Some 8, status = kRunning\<rparr>"
proof -
  have pre: "allocOk demoEnv \<and> runtimeState demoRegistered 0 = None \<and>
      globalRuntimeStatus demoRegistered \<noteq> Global_kDestroyed \<and>
      registry demoRegistered [(1, 10), (2, 20)]"
    by (intro conjI demoRegistered_registry) (simp_all add: demoRegistered_fields demoEnv_def)
  obtain s' where r: "initRuntime demoConfig 0 demoEnv demoRegistered = Returns (Some 100) s'"
    using mp[OF C5_init_phases[of demoConfig 0 demoEnv demoRegistered 100 demoRegistered
          "[(1, 10), (2, 20)]", THEN conjunct2] pre]
    by (auto simp: demoRegistered_fields demoEnv_def)
  from mp[OF C5_init_phases[of demoConfig 0 demoEnv demoRegistered 100 s' "[]", THEN conjunct1] r]
  obtain xs where xs: "chain (nodes demoRegistered) (initHeadNode demoRegistered) xs"
    and tr: "trace s' = trace demoRegistered @
           [SetKonanTerminateHandler,
            InitMemory (globalRuntimeStatus demoRegistered = Global_kUninitialized), WorkerInit True] @
           (if globalRuntimeStatus demoRegistered = Global_kUninitialized then
              ConsoleInit # (if KONAN_OBJC_INTEROP demoConfig then [ObjCExport_initialize] else []) @
              RunPhase INIT_GLOBALS (newMemory demoEnv) #
              map (\<lambda>x. Invoke (snd x) INIT_GLOBALS (newMemory demoEnv)) xs
            else []) @
           RunPhase INIT_THREAD_LOCAL_GLOBALS (newMemory demoEnv) #
           map (\<lambda>x. Invoke (snd x) INIT_THREAD_LOCAL_GLOBALS (newMemory demoEnv)) xs"
    and hp: "heap s' 100 = Some \<lparr>memoryState = newMemory demoEnv, worker = newWorker demoEnv,
                 status = kRunning\<rparr>"
    by blast
  from chain_unique[OF xs demoRegistered_chain] have "xs = [(1, 10), (2, 20)]" .
  with tr hp r show ?thesis
    by (simp add: demoRegistered_fields demoEnv_def demoConfig_def)
qed

subsection \<open>Idempotent deinitialization\<close>

text \<open>
  Claim C8: on a thread without a runtime \<^verbatim>\<open>Kotlin_deinitRuntimeIfNeeded\<close> returns and
  changes nothing. On a thread whose runtime is in the running state (the registry
  being well formed) the call returns having torn the runtime down once (the counter
  is one less, the instance is destructed, the events of one teardown are appended to
  the trace) and having cleared the thread's pointer; a second call then returns
  without changing anything.
\<close>

theorem C8_deinit_idempotent:
  "(runtimeState s t = None \<longrightarrow> Kotlin_deinitRuntimeIfNeeded c t s = Returns () s) \<and>
   (runtimeState s t = Some a \<and> heap s a = Some rs \<and> status rs = kRunning \<and> registry s xs \<longrightarrow>
      (\<exists>s'. Kotlin_deinitRuntimeIfNeeded c t s = Returns () s' \<and>
            runtimeState s' t = None \<and> heap s' a = None \<and>
            aliveRuntimesCount s' = aliveRuntimesCount s - 1 \<and>
            trace s' = trace s @
              RestoreMemory (memoryState rs) #
              (RunPhase DEINIT_THREAD_LOCAL_GLOBALS (memoryState rs) #
                 map (\<lambda>x. Invoke (snd x) DEINIT_THREAD_LOCAL_GLOBALS (memoryState rs)) xs) @
              [GetWorkerId (worker rs), WorkerDeinit (worker rs),
               DeinitMemory (memoryState rs) False,
               WorkerDestroyThreadDataIfNeeded (worker rs)] \<and>
            Kotlin_deinitRuntimeIfNeeded c t s' = Returns () s'))"
proof (intro conjI impI)
  assume "runtimeState s t = None"
  then show "Kotlin_deinitRuntimeIfNeeded c t s = Returns () s" by (rule deinitIfNeeded_invalid)
next
  assume "runtimeState s t = Some a \<and> heap s a = Some rs \<and> status rs = kRunning \<and> registry s xs"
  then have h: "runtimeState s t = Some a" "heap s a = Some rs" "status rs = kRunning"
    "chain (nodes s) (initHeadNode s) xs"
    by (auto simp: registry_def)
  let ?s' = "(afterDeinit False a rs xs s)\<lparr>runtimeState := (runtimeState s)(t := None)\<rparr>"
  have first: "Kotlin_deinitRuntimeIfNeeded c t s = Returns () ?s'"
    by (rule deinitIfNeeded_chain[OF h(1,2) _ h(4)]) (simp add: h(3))
  have second: "Kotlin_deinitRuntimeIfNeeded c t ?s' = Returns () ?s'"
    by (rule deinitIfNeeded_invalid) simp
  show "\<exists>s'. Kotlin_deinitRuntimeIfNeeded c t s = Returns () s' \<and>
            runtimeState s' t = None \<and> heap s' a = None \<and>
            aliveRuntimesCount s' = aliveRuntimesCount s - 1 \<and>
            trace s' = trace s @
              RestoreMemory (memoryState rs) #
              (RunPhase DEINIT_THREAD_LOCAL_GLOBALS (memoryState rs) #
                 map (\<lambda>x. Invoke (snd x) DEINIT_THREAD_LOCAL_GLOBALS (memoryState rs)) xs) @
              [GetWorkerId (worker rs), WorkerDeinit (worker rs),
               DeinitMemory (memoryState rs) False,
               WorkerDestroyThreadDataIfNeeded (worker rs)] \<and>
            Kotlin_deinitRuntimeIfNeeded c t s' = Returns () s'"
    by (intro exI[of _ ?s'] conjI first second)
       (simp_all add: afterDeinit_def deinitEvents_def phaseEvents_def)
qed

theorem C8_deinit_idempotent_witness:
  "Kotlin_deinitRuntimeIfNeeded demoConfig 5 demoOneThread = Returns () demoOneThread \<and>
   (\<exists>s'. Kotlin_deinitRuntimeIfNeeded demoConfig 0 demoOneThread = Returns () s' \<and>
         runtimeState s' 0 = None \<and> aliveRuntimesCount s' = 0 \<and>
         Kotlin_deinitRuntimeIfNeeded demoConfig 0 s' = Returns () s')"
proof -
  note c8 = C8_deinit_idempotent[of demoOneThread _ demoConfig 100
      "\<lparr>memoryState = Some 7, worker = Some 8, status = kRunning\<rparr>" "[(1, 10), (2, 20)]"]
  have "runtimeState demoOneThread 5 = None" by (simp add: demoOneThread_fields)
  from mp[OF c8[of 5, THEN conjunct1] this]
  have a: "Kotlin_deinitRuntimeIfNeeded demoConfig 5 demoOneThread = Returns () demoOneThread" .
  have "runtimeState demoOneThread 0 = Some 100 \<and>
        heap demoOneThread 100 = Some \<lparr>memoryState = Some 7, worker = Some 8, status = kRunning\<rparr> \<and>
        status \<lparr>memoryState = Some 7, worker = Some 8, status = kRunning\<rparr> = kRunning \<and>
        registry demoOneThread [(1, 10), (2, 20)]"
    by (intro conjI demoOneThread_registry demoOneThread_heap) (simp_all add: demoOneThread_fields)
  from mp[OF c8[of 0, THEN conjunct2] this] obtain s' where
    "Kotlin_deinitRuntimeIfNeeded demoConfig 0 demoOneThread = Returns () s'"
    "runtimeState s' 0 = None" "aliveRuntimesCount s' = aliveRuntimesCount demoOneThread - 1"
    "Kotlin_deinitRuntimeIfNeeded demoConfig 0 s' = Returns () s'"
    by blast
  with a show ?thesis by (auto simp: demoOneThread_fields)
qed

subsection \<open>Failed allocation\<close>

text \<open>
  Claim C9 is not what the code does. When the construction of the \<^verbatim>\<open>RuntimeState\<close>
  fails, \<^verbatim>\<open>initRuntime\<close> returns \<^verbatim>\<open>kInvalidRuntime\<close> having only set the terminate
  handler, but \<^verbatim>\<open>Kotlin_initRuntimeIfNeeded\<close> ignores the result: it does not abort, it
  registers \<^verbatim>\<open>Kotlin_deinitRuntimeCallback\<close> with the null \<^verbatim>\<open>runtimeState\<close> and
  returns, the thread still without a runtime. That callback dereferences its argument,
  so the exit of a thread with this one registration is a null dereference.
\<close>

theorem C9_allocation_failure_is_not_fatal:
  assumes "\<not> allocOk e" and "runtimeState s t = None"
    and "globalRuntimeStatus s \<noteq> Global_kDestroyed"
  shows "initRuntime c t e s = Returns None (s\<lparr>trace := trace s @ [SetKonanTerminateHandler]\<rparr>) \<and>
         (\<exists>s'. Kotlin_initRuntimeIfNeeded c t e s = Returns () s' \<and>
            s' = s\<lparr>exitCallbacks := (exitCallbacks s)(t := exitCallbacks s t @ [None]),
                    trace := trace s @ [SetKonanTerminateHandler, OnThreadExit None]\<rparr> \<and>
            runtimeState s' t = None \<and>
            (exitCallbacks s t = [] \<longrightarrow> threadExit c t s' = Faults s'))"
proof -
  have 1: "initRuntime c t e s = Returns None (s\<lparr>trace := trace s @ [SetKonanTerminateHandler]\<rparr>)"
    using initRuntime_no_memory[OF assms(1)] by (simp add: log_def)
  have 2: "Kotlin_initRuntimeIfNeeded c t e s =
      Returns () (s\<lparr>exitCallbacks := (exitCallbacks s)(t := exitCallbacks s t @ [None]),
                    trace := trace s @ [SetKonanTerminateHandler, OnThreadExit None]\<rparr>)"
    using initIfNeeded_no_memory[OF assms(2,3,1)] by (simp add: onThreadExit_def log_def)
  have 3: "threadExit c t (s\<lparr>exitCallbacks := (exitCallbacks s)(t := exitCallbacks s t @ [None]),
                    trace := trace s @ [SetKonanTerminateHandler, OnThreadExit None]\<rparr>) =
           Faults (s\<lparr>exitCallbacks := (exitCallbacks s)(t := exitCallbacks s t @ [None]),
                    trace := trace s @ [SetKonanTerminateHandler, OnThreadExit None]\<rparr>)"
    if "exitCallbacks s t = []"
    using that
    by (simp add: threadExit_def Kotlin_deinitRuntimeCallback_def deinitRuntime_def deref_def)
  from 1 2 3 assms(2) show ?thesis by simp
qed

theorem C9_allocation_failure_is_not_fatal_witness:
  "\<exists>s'. Kotlin_initRuntimeIfNeeded demoConfig 0 (demoEnv\<lparr>allocOk := False\<rparr>) demoRegistered =
          Returns () s' \<and>
        runtimeState s' 0 = None \<and> exitCallbacks s' 0 = [None] \<and>
        trace s' = [SetKonanTerminateHandler, OnThreadExit None] \<and>
        threadExit demoConfig 0 s' = Faults s'"
  using C9_allocation_failure_is_not_fatal[of "demoEnv\<lparr>allocOk := False\<rparr>" demoRegistered 0
      demoConfig]
  by (simp add: demoRegistered_fields)

subsection \<open>Zeroing the thread-local globals\<close>

text \<open>
  Claim C10: \<^verbatim>\<open>Kotlin_zeroOutTLSGlobals\<close> returns the state unchanged when the thread's
  \<^verbatim>\<open>runtimeState\<close> is null or the \<^verbatim>\<open>memoryState\<close> of its runtime is null; otherwise
  (the registry being well formed) it returns the state with exactly the events of the
  \<^verbatim>\<open>DEINIT_THREAD_LOCAL_GLOBALS\<close> phase appended to the trace, so that the status of
  the thread's \<^verbatim>\<open>RuntimeState\<close>, the global status and \<^verbatim>\<open>aliveRuntimesCount\<close> are
  what they were.
\<close>

theorem C10_zeroOutTLSGlobals_frame:
  "(runtimeState s t = None \<longrightarrow> Kotlin_zeroOutTLSGlobals t s = Returns () s) \<and>
   (runtimeState s t = Some a \<and> heap s a = Some rs \<and> memoryState rs = None \<longrightarrow>
      Kotlin_zeroOutTLSGlobals t s = Returns () s) \<and>
   (runtimeState s t = Some a \<and> heap s a = Some rs \<and> memoryState rs = Some m \<and> registry s xs \<longrightarrow>
      (\<exists>s'. Kotlin_zeroOutTLSGlobals t s = Returns () s' \<and>
         s' = s\<lparr>trace := trace s @
                 RunPhase DEINIT_THREAD_LOCAL_GLOBALS (Some m) #
                 map (\<lambda>x. Invoke (snd x) DEINIT_THREAD_LOCAL_GLOBALS (Some m)) xs\<rparr> \<and>
         heap s' a = Some rs \<and> runtimeState s' t = Some a \<and>
         globalRuntimeStatus s' = globalRuntimeStatus s \<and>
         aliveRuntimesCount s' = aliveRuntimesCount s))"
proof (intro conjI impI)
  assume "runtimeState s t = None"
  then show "Kotlin_zeroOutTLSGlobals t s = Returns () s"
    by (simp add: Kotlin_zeroOutTLSGlobals_def)
next
  assume "runtimeState s t = Some a \<and> heap s a = Some rs \<and> memoryState rs = None"
  then show "Kotlin_zeroOutTLSGlobals t s = Returns () s"
    by (simp add: Kotlin_zeroOutTLSGlobals_def deref_def)
next
  assume "runtimeState s t = Some a \<and> heap s a = Some rs \<and> memoryState rs = Some m \<and> registry s xs"
  then have h: "runtimeState s t = Some a" "heap s a = Some rs" "memoryState rs = Some m"
    "chain (nodes s) (initHeadNode s) xs"
    by (auto simp: registry_def)
  have "Kotlin_zeroOutTLSGlobals t s =
          Returns () (s\<lparr>trace := trace s @ phaseEvents DEINIT_THREAD_LOCAL_GLOBALS (Some m) xs\<rparr>)"
    using h(1-3) InitOrDeinit_chain[OF h(4), of DEINIT_THREAD_LOCAL_GLOBALS "Some m"]
    by (simp add: Kotlin_zeroOutTLSGlobals_def deref_def)
  with h show "\<exists>s'. Kotlin_zeroOutTLSGlobals t s = Returns () s' \<and>
         s' = s\<lparr>trace := trace s @
                 RunPhase DEINIT_THREAD_LOCAL_GLOBALS (Some m) #
                 map (\<lambda>x. Invoke (snd x) DEINIT_THREAD_LOCAL_GLOBALS (Some m)) xs\<rparr> \<and>
         heap s' a = Some rs \<and> runtimeState s' t = Some a \<and>
         globalRuntimeStatus s' = globalRuntimeStatus s \<and>
         aliveRuntimesCount s' = aliveRuntimesCount s"
    by (simp add: phaseEvents_def)
qed

theorem C10_zeroOutTLSGlobals_frame_witness:
  "Kotlin_zeroOutTLSGlobals 5 demoOneThread = Returns () demoOneThread \<and>
   Kotlin_zeroOutTLSGlobals 0 demoOneThread =
     Returns () (demoOneThread\<lparr>trace := trace demoOneThread @
        [RunPhase DEINIT_THREAD_LOCAL_GLOBALS (Some 7),
         Invoke 10 DEINIT_THREAD_LOCAL_GLOBALS (Some 7),
         Invoke 20 DEINIT_THREAD_LOCAL_GLOBALS (Some 7)]\<rparr>)"
proof -
  note c10 = C10_zeroOutTLSGlobals_frame[of demoOneThread _ 100
      "\<lparr>memoryState = Some 7, worker = Some 8, status = kRunning\<rparr>" 7 "[(1, 10), (2, 20)]"]
  have "runtimeState demoOneThread 5 = None" by (simp add: demoOneThread_fields)
  from mp[OF c10[of 5, THEN conjunct1] this]
  have a: "Kotlin_zeroOutTLSGlobals 5 demoOneThread = Returns () demoOneThread" .
  have "runtimeState demoOneThread 0 = Some 100 \<and>
        heap demoOneThread 100 = Some \<lparr>memoryState = Some 7, worker = Some 8, status = kRunning\<rparr> \<and>
        memoryState \<lparr>memoryState = Some 7, worker = Some 8, status = kRunning\<rparr> = Some 7 \<and>
        registry demoOneThread [(1, 10), (2, 20)]"
    by (intro conjI demoOneThread_registry demoOneThread_heap) (simp_all add: demoOneThread_fields)
  from mp[OF c10[of 0, THEN conjunct2, THEN conjunct2] this] a
  show ?thesis by simp
qed

subsection \<open>Initializations by several threads\<close>














text \<open>A thread that takes all its steps without another thread in between does what the
  atomic call of the transition system does.\<close>

lemma replicate_18: "replicate 18 t = [t,t,t,t,t,t,t,t,t,t,t,t,t,t,t,t,t,t]"
  by (simp add: eval_nat_numeral)

lemma runThreads_alone_ok:
  assumes none: "runtimeState s t = None" and nd: "globalRuntimeStatus s \<noteq> Global_kDestroyed"
    and ok: "allocOk (es t)" and ch: "chain (nodes s) (initHeadNode s) xs"
  shows "\<exists>fs'. runThreads c es (replicate 18 t) (\<lambda>u. entry) s =
           Returns fs' (onThreadExit t (Some (newInstance (es t))) (afterInit c t (es t) xs s))"
proof (cases "globalRuntimeStatus s = Global_kUninitialized")
  case True
  show ?thesis
  proof (cases "KONAN_OBJC_INTEROP c")
    case objc: True
    with True none ok show ?thesis
      unfolding replicate_18
      by (simp add: initStep_def entry_def isValidRuntime_def kInvalidRuntime_def
          konanConstructInstance_def RuntimeCheck_def RuntimeAssert_def deref_def store_def
          log_def onThreadExit_def afterInit_def initEvents_def InitOrDeinit_chain[where xs = xs] ch)
  next
    case objc: False
    with True none ok show ?thesis
      unfolding replicate_18
      by (simp add: initStep_def entry_def isValidRuntime_def kInvalidRuntime_def
          konanConstructInstance_def RuntimeCheck_def RuntimeAssert_def deref_def store_def
          log_def onThreadExit_def afterInit_def initEvents_def InitOrDeinit_chain[where xs = xs] ch)
  qed
next
  case False
  with nd have "globalRuntimeStatus s = Global_kRunning" by (cases "globalRuntimeStatus s") auto
  with none ok show ?thesis
    unfolding replicate_18
    by (simp add: initStep_def entry_def isValidRuntime_def kInvalidRuntime_def
        konanConstructInstance_def RuntimeCheck_def RuntimeAssert_def deref_def store_def
        log_def onThreadExit_def afterInit_def initEvents_def InitOrDeinit_chain[where xs = xs] ch)
qed

lemma runThreads_alone:
  assumes ch: "chain (nodes s) (initHeadNode s) xs"
  shows "\<exists>fs'. runThreads c es (replicate 18 t) (\<lambda>u. entry) s =
           bind (Kotlin_initRuntimeIfNeeded c t (es t) s) (\<lambda>_ s'. Returns fs' s')"
proof (cases "runtimeState s t")
  case (Some a)
  then have "Kotlin_initRuntimeIfNeeded c t (es t) s = Returns () s"
    by (simp add: initIfNeeded_valid)
  moreover from Some have "\<exists>fs'. runThreads c es (replicate 18 t) (\<lambda>u. entry) s = Returns fs' s"
    unfolding replicate_18
    by (simp add: initStep_def entry_def isValidRuntime_def kInvalidRuntime_def)
  ultimately show ?thesis by simp
next
  case None
  show ?thesis
  proof (cases "globalRuntimeStatus s = Global_kDestroyed")
    case True
    from initIfNeeded_destroyed[OF None True, of c "es t"]
    have "Kotlin_initRuntimeIfNeeded c t (es t) s =
            Aborts (log (ConsoleErrorf destroyedMessage []) s)" .
    moreover from None True
    have "runThreads c es (replicate 18 t) (\<lambda>u. entry) s =
            Aborts (log (ConsoleErrorf destroyedMessage []) s)"
      unfolding replicate_18
      by (simp add: initStep_def entry_def isValidRuntime_def kInvalidRuntime_def
          destroyedMessage_def)
    ultimately show ?thesis by simp
  next
    case False
    show ?thesis
    proof (cases "allocOk (es t)")
      case True
      from initIfNeeded_chain[OF None False True ch, of c]
      have "Kotlin_initRuntimeIfNeeded c t (es t) s =
              Returns () (onThreadExit t (Some (newInstance (es t))) (afterInit c t (es t) xs s))" .
      with runThreads_alone_ok[of s t es xs c, OF None False True ch] show ?thesis by simp
    next
      case nomem: False
      from initIfNeeded_no_memory[OF None False nomem, of c]
      have "Kotlin_initRuntimeIfNeeded c t (es t) s =
              Returns () (onThreadExit t None (log SetKonanTerminateHandler s))" .
      moreover from None False nomem
      have "\<exists>fs'. runThreads c es (replicate 18 t) (\<lambda>u. entry) s =
              Returns fs' (onThreadExit t None (log SetKonanTerminateHandler s))"
        unfolding replicate_18
        by (simp add: initStep_def entry_def isValidRuntime_def kInvalidRuntime_def
            konanConstructInstance_def log_def onThreadExit_def)
      ultimately show ?thesis by simp
    qed
  qed
qed





end
